theory Spec2Isabelle
  imports Main
begin

section \<open>The state manager of \<open>src/core/state-manager.ts\<close>\<close>

text \<open>
  The store of \<^verbatim>\<open>createStateManager\<close> is a closure over mutable variables
  (\<^verbatim>\<open>state\<close>, \<^verbatim>\<open>isPaused\<close>, \<^verbatim>\<open>timeline\<close>, the subscription maps, the selector
  cache, the middleware list). The model is explicit state passing over a record of these
  variables. Everything the store does to the outside world (a write to the storage
  adapter, a send on the sync adapter, a call of a subscriber callback, a call of a selector
  function, a console message) is appended to the trace \<open>effects\<close>, in program order.

  Callbacks (subscribers, middlewares, selector functions) are taken to be observers: they
  do not call back into the store, do not throw and do not catch. An exception is a result
  \<open>Inl\<close> and ends what was running, as it does in the source. The construction of the
  store and the asynchronous completions of the adapters (the handlers given to
  \<^verbatim>\<open>.catch\<close>, \<^verbatim>\<open>loadFromStorage\<close>) are outside the model.

  The first section is the model, function by function. Then come the notions the proofs
  use, concrete stores for the closed theorems, the lemmas, and the properties C1 to C10.
\<close>

subsection \<open>Values\<close>

text \<open>
  A JavaScript value held in a field or carried by a change event: \<^verbatim>\<open>undefined\<close>, the
  member of \<^verbatim>\<open>Object.prototype\<close> found under an inherited property name, a function
  of the application, known by a number, or a data value of the application, which is not
  callable.
\<close>

datatype 'a jsval = Undefined | ProtoMember string | Function nat | Data 'a

text \<open>
  \<^verbatim>\<open>typeof value === 'function'\<close>. Of the members of \<^verbatim>\<open>Object.prototype\<close> all are
  functions but \<^verbatim>\<open>__proto__\<close>, which reads as the prototype object.
\<close>

fun is_function :: "'a jsval \<Rightarrow> bool" where
  "is_function (Function n) = True"
| "is_function (ProtoMember key) = (key \<noteq> ''__proto__'')"
| "is_function _ = False"

text \<open>
  What is thrown: by a validator (\<^verbatim>\<open>schema.parse\<close>), or by a call or a property access
  on \<^verbatim>\<open>undefined\<close>.
\<close>

datatype error = ZodError string | TypeError

text \<open>
  What a call of \<^verbatim>\<open>set\<close> on a storage adapter or of \<^verbatim>\<open>sendChange\<close> on a sync adapter
  returns; the interfaces of \<open>src/types/index.ts\<close> declare \<^verbatim>\<open>Promise<void> | void\<close>.
  Of the built-in adapters only the \<^verbatim>\<open>indexedDB\<close> storage returns a promise.
\<close>

datatype returned = Promise | Void

type_synonym 'a validator = "'a jsval \<Rightarrow> error + 'a jsval"

text \<open>The object \<^verbatim>\<open>state\<close>: its own enumerable properties.\<close>

type_synonym 'a state_values = "string \<rightharpoonup> 'a jsval"

text \<open>
  \<^verbatim>\<open>state\<close> is always a plain object (\<^verbatim>\<open>{}\<close> or an object literal with a spread), so
  its prototype is \<^verbatim>\<open>Object.prototype\<close>, whose property names are these.
\<close>

definition object_prototype_keys :: "string list" where
  "object_prototype_keys =
     [''constructor'', ''__defineGetter__'', ''__defineSetter__'', ''hasOwnProperty'',
      ''__lookupGetter__'', ''__lookupSetter__'', ''isPrototypeOf'', ''propertyIsEnumerable'',
      ''toString'', ''valueOf'', ''__proto__'', ''toLocaleString'']"

text \<open>\<^verbatim>\<open>key in obj\<close>: own properties and the prototype chain.\<close>

definition has_property :: "'a state_values \<Rightarrow> string \<Rightarrow> bool" where
  "has_property obj key \<longleftrightarrow> obj key \<noteq> None \<or> key \<in> set object_prototype_keys"

text \<open>\<^verbatim>\<open>obj[key]\<close>.\<close>

definition get_property :: "'a state_values \<Rightarrow> string \<Rightarrow> 'a jsval" where
  "get_property obj key =
     (case obj key of
        Some v \<Rightarrow> v
      | None \<Rightarrow> if key \<in> set object_prototype_keys then ProtoMember key else Undefined)"

subsection \<open>Change events, atoms, selectors, timeline\<close>

text \<open>\<^verbatim>\<open>StateChangeEvent\<close> of \<open>src/types/index.ts\<close>.\<close>

record 'a change_event =
  atomId :: string
  prevValue :: "'a jsval"
  newValue :: "'a jsval"
  timestamp :: nat
  changeId :: string
  source :: string
  optimistic :: bool

text \<open>
  \<^verbatim>\<open>Atom\<close>: the fields \<^verbatim>\<open>id\<close> and \<^verbatim>\<open>default\<close> carry a suffix, and \<^verbatim>\<open>schema\<close> is the
  validator itself (\<^verbatim>\<open>validate\<close> is \<^verbatim>\<open>schema.parse\<close>).
\<close>

record 'a atom =
  id_atom :: string
  default_atom :: "'a jsval"
  validate :: "'a validator"

text \<open>
  A middleware \<^verbatim>\<open>(change, next) => void\<close> is given by the changes it hands to \<^verbatim>\<open>next\<close>,
  in order: \<open>[c]\<close> passes \<open>c\<close> on, \<open>[]\<close> drops the change.
\<close>

type_synonym 'a middleware = "'a change_event \<Rightarrow> 'a change_event list"

text \<open>
  A selector function, run on a state object, returns a result and reads properties; the
  reads are what the \<^verbatim>\<open>Proxy\<close> of \<^verbatim>\<open>createSelector\<close> records.
\<close>

record ('a, 'r) selector_fn =
  run :: "'a state_values \<Rightarrow> 'r"
  reads :: "'a state_values \<Rightarrow> string list"

text \<open>An entry of \<^verbatim>\<open>selectorCache\<close>; \<^verbatim>\<open>compute\<close> is \<^verbatim>\<open>() => selector(state)\<close>.\<close>

record ('a, 'r) cached_selector =
  deps :: "string set"
  selector :: "('a, 'r) selector_fn"

text \<open>\<^verbatim>\<open>TimelineEntry\<close>, its fields prefixed.\<close>

record 'a timeline_entry =
  entry_timestamp :: nat
  entry_snapshot :: "'a state_values"
  entry_change :: "'a change_event option"
  entry_id :: string

text \<open>\<^verbatim>\<open>config.debug\<close>.\<close>

record debug_config =
  enabled :: bool
  logChanges :: bool
  timeTravel :: bool

text \<open>Subscriber callbacks are opaque; a number stands for each.\<close>

type_synonym callback = nat

datatype ('a, 'r) effect =
    StorageSet string "'a jsval"
  | SyncSend "'a change_event"
  | AtomNotify callback "'a change_event"
  | SelectorCall string 'r
  | SelectorNotify string callback 'r
  | ConsoleError string error
  | LogChange string "'a jsval" "'a jsval" "'a change_event"

subsection \<open>The store\<close>

text \<open>
  The variables closed over by \<^verbatim>\<open>createStateManager\<close>. \<open>storage\<close> and \<open>sync\<close> are
  \<open>None\<close> for \<^verbatim>\<open>null\<close>; a configured adapter is given by what its \<^verbatim>\<open>set\<close>, or its
  \<^verbatim>\<open>sendChange\<close>, returns. \<^verbatim>\<open>nanoid()\<close> returns \<open>nanoid n\<close> at its \<open>n\<close>-th call, counted
  by \<open>idCount\<close>; \<^verbatim>\<open>Date.now()\<close> reads \<open>now\<close>; \<open>call f x\<close> is what the function value
  \<open>f\<close> returns for the argument \<open>x\<close>. A JavaScript \<^verbatim>\<open>Map\<close> whose iteration order
  matters is an association list, a \<^verbatim>\<open>Set\<close> of callbacks a list without repetition, both
  in insertion order.
\<close>

record ('a, 'r) store =
  clientId :: string
  atoms :: "string \<rightharpoonup> 'a atom"
  state :: "'a state_values"
  atomSubscriptions :: "string \<rightharpoonup> callback list"
  selectorSubscriptions :: "string \<rightharpoonup> callback list"
  selectorCache :: "(string \<times> ('a, 'r) cached_selector) list"
  timeline :: "'a timeline_entry list"
  isPaused :: bool
  storage :: "returned option"
  sync :: "returned option"
  debug :: "debug_config option"
  middlewares :: "'a middleware list"
  nanoid :: "nat \<Rightarrow> string"
  idCount :: nat
  now :: nat
  call :: "'a jsval \<Rightarrow> 'a jsval \<Rightarrow> 'a jsval"
  effects :: "('a, 'r) effect list"

definition emit :: "('a, 'r) effect \<Rightarrow> ('a, 'r) store \<Rightarrow> ('a, 'r) store" where
  "emit e s = s\<lparr>effects := effects s @ [e]\<rparr>"

text \<open>\<^verbatim>\<open>Set.prototype.add\<close> and \<^verbatim>\<open>Map.prototype.set\<close>, keeping insertion order.\<close>

definition set_add :: "'x list \<Rightarrow> 'x \<Rightarrow> 'x list" where
  "set_add xs x = (if x \<in> set xs then xs else xs @ [x])"

fun map_set :: "('k \<times> 'v) list \<Rightarrow> 'k \<Rightarrow> 'v \<Rightarrow> ('k \<times> 'v) list" where
  "map_set [] k v = [(k, v)]"
| "map_set ((k', v') # kvs) k v =
     (if k' = k then (k, v) # kvs else (k', v') # map_set kvs k v)"

text \<open>\<^verbatim>\<open>config.debug?.timeTravel\<close> and \<^verbatim>\<open>config.debug?.logChanges\<close>.\<close>

definition debug_timeTravel :: "('a, 'r) store \<Rightarrow> bool" where
  "debug_timeTravel s = (case debug s of None \<Rightarrow> False | Some d \<Rightarrow> timeTravel d)"

definition debug_logChanges :: "('a, 'r) store \<Rightarrow> bool" where
  "debug_logChanges s = (case debug s of None \<Rightarrow> False | Some d \<Rightarrow> logChanges d)"

subsection \<open>Selectors on change\<close>

text \<open>The subscribers of a map entry, none when the entry is missing.\<close>

definition subscribers_of :: "(string \<rightharpoonup> callback list) \<Rightarrow> string \<Rightarrow> callback list" where
  "subscribers_of m k = (case m k of None \<Rightarrow> [] | Some cbs \<Rightarrow> cbs)"

text \<open>The first loop of \<^verbatim>\<open>updateSelectors\<close>: the set \<^verbatim>\<open>affectedSelectors\<close>.\<close>

definition affectedSelectors :: "('a, 'r) store \<Rightarrow> string \<Rightarrow> string list" where
  "affectedSelectors s atomKey =
     fold (\<lambda>(selectorId, c) acc. if atomKey \<in> deps c then set_add acc selectorId else acc)
       (selectorCache s) []"

text \<open>The body of the second loop, for one selector id.\<close>

definition updateSelector :: "string \<Rightarrow> ('a, 'r) store \<Rightarrow> ('a, 'r) store" where
  "updateSelector selectorId s =
     (case map_of (selectorCache s) selectorId of
        None \<Rightarrow> s
      | Some cachedSelector \<Rightarrow>
          let newValue = run (selector cachedSelector) (state s);
              s1 = emit (SelectorCall selectorId newValue) s
          in fold (\<lambda>subscriber. emit (SelectorNotify selectorId subscriber newValue))
               (subscribers_of (selectorSubscriptions s1) selectorId) s1)"

definition updateSelectors :: "string \<Rightarrow> ('a, 'r) store \<Rightarrow> ('a, 'r) store" where
  "updateSelectors atomKey s = fold updateSelector (affectedSelectors s atomKey) s"

subsection \<open>\<^verbatim>\<open>applyChange\<close>\<close>

text \<open>
  \<^verbatim>\<open>adapter.method(...).catch(handler)\<close>: the method is called, which is the effect, and
  \<^verbatim>\<open>.catch\<close> is read off what it returned. Off \<^verbatim>\<open>undefined\<close> that is a \<^verbatim>\<open>TypeError\<close>.
\<close>

definition call_and_catch ::
  "returned \<Rightarrow> ('a, 'r) effect \<Rightarrow> ('a, 'r) store \<Rightarrow> (error + unit) \<times> ('a, 'r) store" where
  "call_and_catch r e s =
     (case r of Promise \<Rightarrow> (Inr (), emit e s) | Void \<Rightarrow> (Inl TypeError, emit e s))"

text \<open>
  The branch \<^verbatim>\<open>index >= middlewares.length\<close> of \<^verbatim>\<open>applyMiddlewares\<close>, in two parts.
  This is the second, from \<^verbatim>\<open>// Add to timeline\<close> on: the timeline entry, the
  subscribers of the atom, the selectors and the debug log. \<open>prev\<close> is \<^verbatim>\<open>prevValue\<close>,
  read before the snapshot was replaced.
\<close>

definition notify_change ::
  "string \<Rightarrow> 'a jsval \<Rightarrow> 'a change_event \<Rightarrow> ('a, 'r) store \<Rightarrow> ('a, 'r) store" where
  "notify_change atomKey prev currentChange s3 =
     (let s4 = (if debug_timeTravel s3
                then s3\<lparr>timeline := timeline s3 @
                         [\<lparr>entry_timestamp = now s3, entry_snapshot = state s3,
                           entry_change = Some currentChange,
                           entry_id = nanoid s3 (idCount s3)\<rparr>],
                        idCount := Suc (idCount s3)\<rparr>
                else s3);
          s5 = fold (\<lambda>subscriber.
                       emit (AtomNotify subscriber
                         (currentChange\<lparr>prevValue := prev,
                                        newValue := get_property (state s4) atomKey\<rparr>)))
                 (subscribers_of (atomSubscriptions s4) atomKey) s4;
          s6 = updateSelectors atomKey s5
      in if debug_logChanges s6
         then emit (LogChange atomKey prev (get_property (state s6) atomKey) currentChange) s6
         else s6)"

text \<open>
  The first part and the whole. It reads the key and the optimistic flag from \<open>change\<close>,
  the event \<^verbatim>\<open>applyChange\<close> was called with, and the value from \<open>currentChange\<close>, the
  event the last middleware passed on. The snapshot is replaced first; an exception of
  one of the two adapter calls leaves the rest undone.
\<close>

definition proceed ::
  "'a change_event \<Rightarrow> 'a change_event \<Rightarrow> ('a, 'r) store \<Rightarrow> (error + unit) \<times> ('a, 'r) store" where
  "proceed change currentChange s =
     (let atomKey = atomId change in
      if \<not> has_property (state s) atomKey then (Inr (), s)
      else
        let prev = get_property (state s) atomKey;
            s1 = s\<lparr>state := (state s)(atomKey \<mapsto> newValue currentChange)\<rparr>
        in case (case storage s1 of
                   None \<Rightarrow> (Inr (), s1)
                 | Some r \<Rightarrow>
                     call_and_catch r
                       (StorageSet (''state:'' @ atomKey) (newValue currentChange)) s1) of
             (Inl err, s2) \<Rightarrow> (Inl err, s2)
           | (Inr u, s2) \<Rightarrow>
              (case (case sync s2 of
                       None \<Rightarrow> (Inr (), s2)
                     | Some r \<Rightarrow>
                         if \<not> optimistic change
                         then call_and_catch r (SyncSend currentChange) s2
                         else (Inr (), s2)) of
                 (Inl err, s3) \<Rightarrow> (Inl err, s3)
               | (Inr u, s3) \<Rightarrow> (Inr (), notify_change atomKey prev currentChange s3)))"

text \<open>
  \<^verbatim>\<open>applyMiddlewares(index, currentChange)\<close>. The middleware list is the one in place when
  \<^verbatim>\<open>applyChange\<close> starts; nothing in the model changes it on the way. The middleware
  calls \<^verbatim>\<open>next\<close> for each change of its list in turn; an exception of one call goes
  through the middleware, so the later calls are not made.
\<close>

function applyMiddlewares ::
  "'a middleware list \<Rightarrow> 'a change_event \<Rightarrow> nat \<Rightarrow> 'a change_event \<Rightarrow> ('a, 'r) store \<Rightarrow>
     (error + unit) \<times> ('a, 'r) store"
where
  "applyMiddlewares ms change index currentChange s =
     (if index \<ge> length ms then proceed change currentChange s
      else fold (\<lambda>nextChange (thrown, t).
                   case thrown of
                     Inl err \<Rightarrow> (Inl err, t)
                   | Inr u \<Rightarrow> applyMiddlewares ms change (Suc index) nextChange t)
             ((ms ! index) currentChange) (Inr (), s))"
  by pat_completeness auto
termination
  by (relation "measure (\<lambda>(ms, change, index, currentChange, s). length ms - index)") auto

declare applyMiddlewares.simps [simp del]

definition applyChange ::
  "'a change_event \<Rightarrow> ('a, 'r) store \<Rightarrow> (error + unit) \<times> ('a, 'r) store" where
  "applyChange change s =
     (if isPaused s then (Inr (), s) else applyMiddlewares (middlewares s) change 0 change s)"

subsection \<open>Local updates\<close>

text \<open>\<^verbatim>\<open>createChangeEvent\<close>; it draws one id.\<close>

definition createChangeEvent ::
  "string \<Rightarrow> 'a jsval \<Rightarrow> bool \<Rightarrow> ('a, 'r) store \<Rightarrow> 'a change_event \<times> ('a, 'r) store" where
  "createChangeEvent atomKey value opt s =
     (\<lparr>atomId = atomKey, prevValue = get_property (state s) atomKey, newValue = value,
       timestamp = now s, changeId = nanoid s (idCount s), source = clientId s,
       optimistic = opt\<rparr>,
      s\<lparr>idCount := Suc (idCount s)\<rparr>)"

text \<open>
  \<^verbatim>\<open>atoms[atomId].validate(value)\<close>: a key that is no atom gives \<^verbatim>\<open>undefined\<close> (or an
  inherited member without \<^verbatim>\<open>validate\<close>), and the call throws a \<^verbatim>\<open>TypeError\<close>.
\<close>

definition validate_atom :: "('a, 'r) store \<Rightarrow> string \<Rightarrow> 'a jsval \<Rightarrow> error + 'a jsval" where
  "validate_atom s atomKey value =
     (case atoms s atomKey of None \<Rightarrow> Inl TypeError | Some a \<Rightarrow> validate a value)"

text \<open>
  The second argument of \<^verbatim>\<open>updateAtom\<close>: a value that is not a function, or a function
  of the current value (\<^verbatim>\<open>typeof value === 'function'\<close>).
\<close>

datatype 'a update_arg = Direct "'a jsval" | Updater "'a jsval \<Rightarrow> 'a jsval"

text \<open>A value as \<^verbatim>\<open>updateAtom\<close> takes it when it is handed over as the second argument.\<close>

definition as_update_arg :: "('a, 'r) store \<Rightarrow> 'a jsval \<Rightarrow> 'a update_arg" where
  "as_update_arg s value = (if is_function value then Updater (call s value) else Direct value)"

text \<open>
  \<^verbatim>\<open>updateAtom\<close>: the result is \<open>Inl\<close> the error it rethrows, or \<open>Inr ()\<close>, with the store
  it leaves behind. The \<^verbatim>\<open>try\<close> block holds the validation and \<^verbatim>\<open>applyChange\<close>, so an
  exception of either is reported on the console under the same message and rethrown.
\<close>

definition updateAtom ::
  "string \<Rightarrow> 'a update_arg \<Rightarrow> bool \<Rightarrow> ('a, 'r) store \<Rightarrow> (error + unit) \<times> ('a, 'r) store" where
  "updateAtom atomKey value opt s =
     (let currentValue = get_property (state s) atomKey;
          newVal = (case value of Updater f \<Rightarrow> f currentValue | Direct v \<Rightarrow> v)
      in case validate_atom s atomKey newVal of
           Inl err \<Rightarrow>
             (Inl err, emit (ConsoleError (''Invalid value for atom '' @ atomKey @ '':'') err) s)
         | Inr validatedValue \<Rightarrow>
             (let (change, s1) = createChangeEvent atomKey validatedValue opt s
              in case applyChange change s1 of
                   (Inl err, s2) \<Rightarrow>
                     (Inl err,
                      emit (ConsoleError (''Invalid value for atom '' @ atomKey @ '':'') err) s2)
                 | (Inr u, s2) \<Rightarrow> (Inr (), s2)))"

subsection \<open>Transactions\<close>

text \<open>The two maps of \<^verbatim>\<open>createTransaction\<close>, in insertion order.\<close>

record 'a transaction =
  changes :: "(string \<times> 'a jsval) list"
  previousValues :: "(string \<times> 'a jsval) list"

definition createTransaction :: "'a transaction" where
  "createTransaction = \<lparr>changes = [], previousValues = []\<rparr>"

text \<open>
  \<^verbatim>\<open>update\<close> of a transaction. It reads the store and does not change it. When the
  validator throws, \<^verbatim>\<open>previousValues\<close> has already been written and \<^verbatim>\<open>changes\<close> has not.
\<close>

definition tx_update ::
  "string \<Rightarrow> 'a jsval \<Rightarrow> 'a transaction \<Rightarrow> ('a, 'r) store \<Rightarrow>
     (error + unit) \<times> 'a transaction \<times> ('a, 'r) store" where
  "tx_update atomKey value tx s =
     (let tx1 = (if map_of (previousValues tx) atomKey = None
                 then tx\<lparr>previousValues :=
                          map_set (previousValues tx) atomKey (get_property (state s) atomKey)\<rparr>
                 else tx)
      in case validate_atom s atomKey value of
           Inl err \<Rightarrow> (Inl err, tx1, s)
         | Inr validatedValue \<Rightarrow>
             (Inr (), tx1\<lparr>changes := map_set (changes tx1) atomKey validatedValue\<rparr>, s))"

text \<open>
  The loop of \<^verbatim>\<open>commit\<close>: an error of \<^verbatim>\<open>updateAtom\<close> leaves the loop. A pending value
  that is a function is called by \<^verbatim>\<open>updateAtom\<close> like any function it is given.
\<close>

fun commit_entries ::
  "(string \<times> 'a jsval) list \<Rightarrow> ('a, 'r) store \<Rightarrow> (error + unit) \<times> ('a, 'r) store" where
  "commit_entries [] s = (Inr (), s)"
| "commit_entries ((atomKey, value) # rest) s =
     (case updateAtom atomKey (as_update_arg s value) False s of
        (Inl err, s1) \<Rightarrow> (Inl err, s1)
      | (Inr u, s1) \<Rightarrow> commit_entries rest s1)"

text \<open>\<^verbatim>\<open>commit\<close>: the maps are cleared only when the loop ran to its end.\<close>

definition tx_commit ::
  "'a transaction \<Rightarrow> ('a, 'r) store \<Rightarrow> (error + unit) \<times> 'a transaction \<times> ('a, 'r) store" where
  "tx_commit tx s =
     (case commit_entries (changes tx) s of
        (Inl err, s1) \<Rightarrow> (Inl err, tx, s1)
      | (Inr u, s1) \<Rightarrow> (Inr (), tx\<lparr>changes := [], previousValues := []\<rparr>, s1))"

text \<open>\<^verbatim>\<open>rollback\<close>.\<close>

definition tx_rollback :: "'a transaction \<Rightarrow> ('a, 'r) store \<Rightarrow> 'a transaction \<times> ('a, 'r) store" where
  "tx_rollback tx s = (tx\<lparr>changes := [], previousValues := []\<rparr>, s)"

subsection \<open>Changes from the sync adapter, subscriptions, selectors\<close>

text \<open>
  The callback given to \<^verbatim>\<open>sync.subscribeToChanges\<close>; an exception of \<^verbatim>\<open>applyChange\<close>
  goes to the adapter that called it.
\<close>

definition syncListener ::
  "'a change_event \<Rightarrow> ('a, 'r) store \<Rightarrow> (error + unit) \<times> ('a, 'r) store" where
  "syncListener change s =
     (if source change = clientId s then (Inr (), s) else applyChange change s)"

text \<open>\<^verbatim>\<open>subscribe\<close> of the public API.\<close>

definition subscribe :: "string \<Rightarrow> callback \<Rightarrow> ('a, 'r) store \<Rightarrow> ('a, 'r) store" where
  "subscribe atomKey cb s =
     s\<lparr>atomSubscriptions :=
         (atomSubscriptions s)(atomKey \<mapsto> set_add (subscribers_of (atomSubscriptions s) atomKey) cb)\<rparr>"

text \<open>
  \<^verbatim>\<open>createSelector\<close>; it returns the id of the wrapped selector. Without explicit
  dependencies the selector runs once on the proxy and its reads become the dependencies.
\<close>

definition createSelector ::
  "('a, 'r) selector_fn \<Rightarrow> string list option \<Rightarrow> ('a, 'r) store \<Rightarrow> string \<times> ('a, 'r) store" where
  "createSelector f explicitDeps s =
     (let selectorId = nanoid s (idCount s);
          s1 = s\<lparr>idCount := Suc (idCount s)\<rparr>;
          deps0 = (case explicitDeps of None \<Rightarrow> {} | Some ds \<Rightarrow> set ds);
          tracked = (explicitDeps = None \<or> explicitDeps = Some []);
          ds = (if tracked then deps0 \<union> set (reads f (state s1)) else deps0);
          s2 = (if tracked then emit (SelectorCall selectorId (run f (state s1))) s1 else s1)
      in (selectorId,
          s2\<lparr>selectorCache := map_set (selectorCache s2) selectorId \<lparr>deps = ds, selector = f\<rparr>\<rparr>))"

text \<open>
  The selector handed to \<^verbatim>\<open>subscribeToSelector\<close>: a plain function, or the wrapper that
  \<^verbatim>\<open>createSelector\<close> returned, which carries the id.
\<close>

datatype ('a, 'r) selector_arg =
    Plain "('a, 'r) selector_fn"
  | Wrapped string "('a, 'r) selector_fn"

text \<open>
  \<^verbatim>\<open>subscribeToSelector\<close> from the point where the selector has an id: the callback joins
  the subscribers and is called at once with the current value.
\<close>

definition subscribe_with_id :: "string \<Rightarrow> callback \<Rightarrow> ('a, 'r) store \<Rightarrow> ('a, 'r) store" where
  "subscribe_with_id selectorId cb s =
     (let s1 = s\<lparr>selectorSubscriptions :=
                  (selectorSubscriptions s)(selectorId \<mapsto>
                     set_add (subscribers_of (selectorSubscriptions s) selectorId) cb)\<rparr>
      in case map_of (selectorCache s1) selectorId of
           None \<Rightarrow> s1
         | Some cachedSelector \<Rightarrow>
             (let v = run (selector cachedSelector) (state s1)
              in emit (SelectorNotify selectorId cb v) (emit (SelectorCall selectorId v) s1)))"

text \<open>
  \<^verbatim>\<open>subscribeToSelector\<close>: a selector without an id (or with an empty one, which is
  falsy) is first registered by \<^verbatim>\<open>createSelector\<close> without explicit dependencies.
\<close>

definition subscribeToSelector ::
  "('a, 'r) selector_arg \<Rightarrow> callback \<Rightarrow> ('a, 'r) store \<Rightarrow> ('a, 'r) store" where
  "subscribeToSelector sel cb s =
     (case sel of
        Plain f \<Rightarrow> (let (selectorId, s1) = createSelector f None s
                    in subscribe_with_id selectorId cb s1)
      | Wrapped selectorId f \<Rightarrow>
          if selectorId = []
          then (let (newId, s1) = createSelector f None s in subscribe_with_id newId cb s1)
          else subscribe_with_id selectorId cb s)"

subsection \<open>The debug API\<close>

text \<open>\<^verbatim>\<open>togglePause\<close> and \<^verbatim>\<open>addMiddleware\<close>.\<close>

definition togglePause :: "('a, 'r) store \<Rightarrow> bool \<times> ('a, 'r) store" where
  "togglePause s = (\<not> isPaused s, s\<lparr>isPaused := \<not> isPaused s\<rparr>)"

definition addMiddleware :: "'a middleware \<Rightarrow> ('a, 'r) store \<Rightarrow> ('a, 'r) store" where
  "addMiddleware m s = s\<lparr>middlewares := middlewares s @ [m]\<rparr>"

section \<open>Derived notions for the proofs\<close>

text \<open>
  What one selector contributes to the trace in \<^verbatim>\<open>updateSelectors\<close>: the call of its
  function on the current state and one notification per subscriber.
\<close>

definition selector_effects :: "('a, 'r) store \<Rightarrow> string \<Rightarrow> ('a, 'r) effect list" where
  "selector_effects s selectorId =
     (case map_of (selectorCache s) selectorId of
        None \<Rightarrow> []
      | Some c \<Rightarrow>
          SelectorCall selectorId (run (selector c) (state s)) #
          map (\<lambda>cb. SelectorNotify selectorId cb (run (selector c) (state s)))
            (subscribers_of (selectorSubscriptions s) selectorId))"

text \<open>
  Whether \<open>proceed\<close> throws on an atom it finds: the storage adapter is called for every
  change, the sync adapter for those that are not optimistic.
\<close>

definition adapter_throws :: "'a change_event \<Rightarrow> ('a, 'r) store \<Rightarrow> bool" where
  "adapter_throws change s \<longleftrightarrow>
     storage s = Some Void \<or> (sync s = Some Void \<and> \<not> optimistic change)"

text \<open>
  What \<open>notify_change\<close> adds to the trace: the calls of the subscribers of the atom, of
  the selectors that depend on it and of their subscribers, and the log.
\<close>

definition completion_effects ::
  "'a change_event \<Rightarrow> 'a change_event \<Rightarrow> ('a, 'r) store \<Rightarrow> ('a, 'r) effect list" where
  "completion_effects change c s =
     map (\<lambda>cb. AtomNotify cb (c\<lparr>prevValue := get_property (state s) (atomId change),
                                   newValue := newValue c\<rparr>))
       (subscribers_of (atomSubscriptions s) (atomId change)) @
     concat (map (selector_effects (s\<lparr>state := (state s)(atomId change \<mapsto> newValue c)\<rparr>))
       (affectedSelectors s (atomId change))) @
     (if debug_logChanges s
      then [LogChange (atomId change) (get_property (state s) (atomId change)) (newValue c) c]
      else [])"

text \<open>
  The trace of \<open>proceed\<close> on an atom it finds: the adapter calls up to the first that
  throws, and then, when none does, what \<open>notify_change\<close> adds. The timeline gets its
  entry in that case only.
\<close>

definition proceed_effects ::
  "'a change_event \<Rightarrow> 'a change_event \<Rightarrow> ('a, 'r) store \<Rightarrow> ('a, 'r) effect list" where
  "proceed_effects change c s =
     (if storage s \<noteq> None then [StorageSet (''state:'' @ atomId change) (newValue c)] else []) @
     (if storage s = Some Void then []
      else (if sync s \<noteq> None \<and> \<not> optimistic change then [SyncSend c] else []) @
           (if adapter_throws change s then [] else completion_effects change c s))"

definition proceed_timeline ::
  "'a change_event \<Rightarrow> 'a change_event \<Rightarrow> ('a, 'r) store \<Rightarrow> 'a timeline_entry list" where
  "proceed_timeline change c s =
     (if debug_timeTravel s \<and> \<not> adapter_throws change s
      then timeline s @
        [\<lparr>entry_timestamp = now s, entry_snapshot = (state s)(atomId change \<mapsto> newValue c),
          entry_change = Some c, entry_id = nanoid s (idCount s)\<rparr>]
      else timeline s)"

text \<open>The event that \<^verbatim>\<open>updateAtom\<close> creates for a validated value.\<close>

definition local_change :: "string \<Rightarrow> 'a jsval \<Rightarrow> bool \<Rightarrow> ('a, 'r) store \<Rightarrow> 'a change_event" where
  "local_change k w opt s = fst (createChangeEvent k w opt s)"

text \<open>
  The effects an operation added, from the store before and the store after it; every
  operation only appends to the trace.
\<close>

definition new_effects :: "('a, 'r) store \<Rightarrow> ('a, 'r) store \<Rightarrow> ('a, 'r) effect list" where
  "new_effects s s' = drop (length (effects s)) (effects s')"

text \<open>Kinds of effects, to read one kind off a trace with \<open>filter\<close>.\<close>

fun is_send :: "('a, 'r) effect \<Rightarrow> bool" where
  "is_send (SyncSend c) = True"
| "is_send _ = False"

fun is_storage_set :: "('a, 'r) effect \<Rightarrow> bool" where
  "is_storage_set (StorageSet k v) = True"
| "is_storage_set _ = False"

fun is_atom_notify :: "('a, 'r) effect \<Rightarrow> bool" where
  "is_atom_notify (AtomNotify cb c) = True"
| "is_atom_notify _ = False"

fun is_console :: "('a, 'r) effect \<Rightarrow> bool" where
  "is_console (ConsoleError msg err) = True"
| "is_console (LogChange k p n c) = True"
| "is_console _ = False"

text \<open>The effects that concern one selector: the calls of its function and of its subscribers.\<close>

fun is_of_selector :: "string \<Rightarrow> ('a, 'r) effect \<Rightarrow> bool" where
  "is_of_selector selectorId (SelectorCall sid v) = (sid = selectorId)"
| "is_of_selector selectorId (SelectorNotify sid cb v) = (sid = selectorId)"
| "is_of_selector selectorId _ = False"

text \<open>The second store extends the trace of the first by effects that all satisfy \<open>Q\<close>.\<close>

definition adds_only ::
  "(('a, 'r) effect \<Rightarrow> bool) \<Rightarrow> ('a, 'r) store \<Rightarrow> ('a, 'r) store \<Rightarrow> bool" where
  "adds_only Q s s' \<longleftrightarrow> (\<exists>es. effects s' = effects s @ es \<and> (\<forall>e \<in> set es. Q e))"

section \<open>Concrete stores\<close>

text \<open>
  Two atoms \<^verbatim>\<open>count\<close> and \<^verbatim>\<open>total\<close> with the schema
  \<^verbatim>\<open>z.number().min(0).default(0)\<close>, debugging on, one middleware that passes every
  change on, subscribers on both atoms and one subscribed selector that depends on
  \<^verbatim>\<open>count\<close>. Both adapters are configured, and their \<^verbatim>\<open>set\<close> and \<^verbatim>\<open>sendChange\<close> return
  promises, as custom adapters with \<^verbatim>\<open>async\<close> methods do.
\<close>

definition nonneg :: "int validator" where
  "nonneg v =
     (case v of
        Undefined \<Rightarrow> Inr (Data 0)
      | ProtoMember k \<Rightarrow> Inl (ZodError ''Expected number, received function'')
      | Function n \<Rightarrow> Inl (ZodError ''Expected number, received function'')
      | Data n \<Rightarrow>
          if 0 \<le> n then Inr (Data n)
          else Inl (ZodError ''Number must be greater than or equal to 0''))"

definition example_ids :: "nat \<Rightarrow> string" where
  "example_ids n = ''id-'' @ replicate n (CHR ''x'')"

definition double_count :: "(int, int) selector_fn" where
  "double_count =
     \<lparr>run = (\<lambda>st. case st ''count'' of Some (Data n) \<Rightarrow> 2 * n | _ \<Rightarrow> 0),
      reads = (\<lambda>st. [''count''])\<rparr>"

definition example_store :: "(int, int) store" where
  "example_store =
     \<lparr>clientId = ''id-'',
      atoms = [''count'' \<mapsto> \<lparr>id_atom = ''count'', default_atom = Data 0, validate = nonneg\<rparr>,
               ''total'' \<mapsto> \<lparr>id_atom = ''total'', default_atom = Data 0, validate = nonneg\<rparr>],
      state = [''count'' \<mapsto> Data 0, ''total'' \<mapsto> Data 0],
      atomSubscriptions = [''count'' \<mapsto> [1, 2], ''total'' \<mapsto> [3]],
      selectorSubscriptions = [''id-x'' \<mapsto> [7]],
      selectorCache = [(''id-x'', \<lparr>deps = {''count''}, selector = double_count\<rparr>)],
      timeline = [], isPaused = False, storage = Some Promise, sync = Some Promise,
      debug = Some \<lparr>enabled = True, logChanges = True, timeTravel = True\<rparr>,
      middlewares = [\<lambda>c. [c]], nanoid = example_ids, idCount = 2, now = 1000,
      call = (\<lambda>f x. Undefined), effects = []\<rparr>"

text \<open>
  The same store with the adapters of the first example of the README,
  \<^verbatim>\<open>storageAdapter: 'localStorage'\<close> and \<^verbatim>\<open>syncAdapter: 'broadcastChannel'\<close>, whose
  \<^verbatim>\<open>set\<close> and \<^verbatim>\<open>sendChange\<close> return nothing.
\<close>

definition readme_store :: "(int, int) store" where
  "readme_store = example_store\<lparr>storage := Some Void, sync := Some Void\<rparr>"

text \<open>Change events for the concrete stores, and the transactions they are given.\<close>

definition remote_change :: "int change_event" where
  "remote_change =
     \<lparr>atomId = ''count'', prevValue = Data 0, newValue = Data 5, timestamp = 990,
      changeId = ''remote-1'', source = ''peer'', optimistic = False\<rparr>"

definition optimistic_change :: "int change_event" where
  "optimistic_change =
     \<lparr>atomId = ''count'', prevValue = Data 0, newValue = Data 5, timestamp = 990,
      changeId = ''local-1'', source = ''id-'', optimistic = True\<rparr>"

definition peer_optimistic_change :: "int change_event" where
  "peer_optimistic_change =
     \<lparr>atomId = ''count'', prevValue = Data 0, newValue = Data 5, timestamp = 990,
      changeId = ''remote-5'', source = ''peer'', optimistic = True\<rparr>"

definition ghost_change :: "int change_event" where
  "ghost_change =
     \<lparr>atomId = ''ghost'', prevValue = Undefined, newValue = Data 5, timestamp = 990,
      changeId = ''remote-2'', source = ''peer'', optimistic = False\<rparr>"

definition total_change :: "int change_event" where
  "total_change =
     \<lparr>atomId = ''total'', prevValue = Data 0, newValue = Data 3, timestamp = 990,
      changeId = ''remote-3'', source = ''peer'', optimistic = False\<rparr>"

definition inherited_change :: "int change_event" where
  "inherited_change =
     \<lparr>atomId = ''toString'', prevValue = Undefined, newValue = Data 5, timestamp = 990,
      changeId = ''remote-4'', source = ''peer'', optimistic = False\<rparr>"

definition example_tx1 :: "int transaction" where
  "example_tx1 = \<lparr>changes = [(''count'', Data 1)], previousValues = [(''count'', Data 0)]\<rparr>"

definition example_tx2 :: "int transaction" where
  "example_tx2 =
     \<lparr>changes = [(''count'', Data 1), (''total'', Data 2)],
      previousValues = [(''count'', Data 0), (''total'', Data 0)]\<rparr>"

definition example_tx3 :: "int transaction" where
  "example_tx3 = \<lparr>changes = [(''count'', Data 2)], previousValues = [(''count'', Data 0)]\<rparr>"

section \<open>Lemmas about the model\<close>

subsection \<open>What the final step does\<close>

text \<open>
  \<open>proceed\<close> on an atom it finds is one record update: the snapshot entry, the timeline,
  the id counter and the effects listed by \<open>proceed_effects\<close>; it throws exactly when
  an adapter call does.
\<close>

lemma fold_emit:
  "fold (\<lambda>x. emit (g x)) xs s = s\<lparr>effects := effects s @ map g xs\<rparr>"
  by (induction xs arbitrary: s) (simp_all add: emit_def)

lemma updateSelector_eq:
  "updateSelector selectorId s = s\<lparr>effects := effects s @ selector_effects s selectorId\<rparr>"
  by (simp add: updateSelector_def selector_effects_def fold_emit emit_def Let_def
      split: option.splits)

lemma selector_effects_cong:
  assumes "selectorCache t = selectorCache s" and "state t = state s"
    and "selectorSubscriptions t = selectorSubscriptions s"
  shows "selector_effects t = selector_effects s"
  using assms by (intro ext) (simp add: selector_effects_def split: option.splits)

lemma affectedSelectors_cong:
  "selectorCache t = selectorCache s \<Longrightarrow> affectedSelectors t = affectedSelectors s"
  by (intro ext) (simp add: affectedSelectors_def)

lemma fold_updateSelector:
  "fold updateSelector sids s =
     s\<lparr>effects := effects s @ concat (map (selector_effects s) sids)\<rparr>"
proof (induction sids arbitrary: s)
  case Nil
  then show ?case by simp
next
  case (Cons sid sids)
  define s1 where "s1 = s\<lparr>effects := effects s @ selector_effects s sid\<rparr>"
  have same: "selector_effects s1 = selector_effects s"
    unfolding s1_def by (rule selector_effects_cong) simp_all
  have "fold updateSelector (sid # sids) s = fold updateSelector sids s1"
    by (simp add: s1_def updateSelector_eq [of sid s])
  also have "\<dots> = s1\<lparr>effects := effects s1 @ concat (map (selector_effects s1) sids)\<rparr>"
    by (rule Cons.IH)
  also have "\<dots> = s\<lparr>effects := effects s @ concat (map (selector_effects s) (sid # sids))\<rparr>"
    by (simp add: same) (simp add: s1_def)
  finally show ?case .
qed

lemma updateSelectors_eq:
  "updateSelectors k s =
     s\<lparr>effects := effects s @ concat (map (selector_effects s) (affectedSelectors s k))\<rparr>"
  by (simp add: updateSelectors_def fold_updateSelector)

lemma get_property_upd: "get_property (m(k \<mapsto> v)) k = v"
  by (simp add: get_property_def)

lemma if_emit:
  "(if b then emit e s else s) = s\<lparr>effects := effects s @ (if b then [e] else [])\<rparr>"
  by (simp add: emit_def)

lemma if_timeline:
  "(if b then s\<lparr>timeline := T, idCount := N\<rparr> else s) =
     s\<lparr>timeline := (if b then T else timeline s), idCount := (if b then N else idCount s)\<rparr>"
  by simp

lemma selector_effects_frame [simp]:
  "selector_effects (s\<lparr>effects := es\<rparr>) = selector_effects s"
  "selector_effects (s\<lparr>timeline := tline\<rparr>) = selector_effects s"
  "selector_effects (s\<lparr>idCount := n\<rparr>) = selector_effects s"
  by (rule selector_effects_cong, simp_all)+

lemma affectedSelectors_frame [simp]:
  "affectedSelectors (s\<lparr>effects := es\<rparr>) = affectedSelectors s"
  "affectedSelectors (s\<lparr>timeline := tline\<rparr>) = affectedSelectors s"
  "affectedSelectors (s\<lparr>idCount := n\<rparr>) = affectedSelectors s"
  "affectedSelectors (s\<lparr>state := st\<rparr>) = affectedSelectors s"
  by (rule affectedSelectors_cong, simp)+

lemma notify_change_eq:
  assumes "state t = (state s)(k \<mapsto> newValue c)" and "k = atomId change"
    and "atomSubscriptions t = atomSubscriptions s" and "selectorCache t = selectorCache s"
    and "selectorSubscriptions t = selectorSubscriptions s" and "debug t = debug s"
  shows "notify_change k (get_property (state s) k) c t =
         t\<lparr>timeline := (if debug_timeTravel t
                         then timeline t @
                           [\<lparr>entry_timestamp = now t, entry_snapshot = state t,
                             entry_change = Some c, entry_id = nanoid t (idCount t)\<rparr>]
                         else timeline t),
           idCount := (if debug_timeTravel t then Suc (idCount t) else idCount t),
           effects := effects t @ completion_effects change c s\<rparr>"
proof -
  have sel: "selector_effects u = selector_effects (s\<lparr>state := (state s)(k \<mapsto> newValue c)\<rparr>)"
    if "selectorCache u = selectorCache t" "state u = state t"
      "selectorSubscriptions u = selectorSubscriptions t" for u :: "('a, 'b) store"
    by (rule selector_effects_cong) (use that assms in simp_all)
  have aff: "affectedSelectors u = affectedSelectors s"
    if "selectorCache u = selectorCache t" for u :: "('a, 'b) store"
    by (rule affectedSelectors_cong) (use that assms in simp)
  show ?thesis
    using assms(1,2,3,6)
    by (simp add: notify_change_def Let_def fold_emit updateSelectors_eq if_emit if_timeline
        get_property_upd completion_effects_def debug_logChanges_def debug_timeTravel_def sel aff
        split del: if_split cong: if_cong)
qed

lemma proceed_eq:
  assumes "has_property (state s) (atomId change)"
  shows "proceed change c s =
     (if adapter_throws change s then Inl TypeError else Inr (),
      s\<lparr>state := (state s)(atomId change \<mapsto> newValue c),
        timeline := proceed_timeline change c s,
        idCount := (if debug_timeTravel s \<and> \<not> adapter_throws change s
                    then Suc (idCount s) else idCount s),
        effects := effects s @ proceed_effects change c s\<rparr>)"
proof -
  consider (void) "storage s = Some Void"
    | (sync_void) "storage s \<noteq> Some Void" "sync s = Some Void" "\<not> optimistic change"
    | (ok) "\<not> adapter_throws change s"
    by (auto simp: adapter_throws_def)
  then show ?thesis
  proof cases
    case void
    then show ?thesis
      using assms
      by (simp add: proceed_def Let_def call_and_catch_def emit_def adapter_throws_def
          proceed_effects_def proceed_timeline_def)
  next
    case sync_void
    then have "storage s = None \<or> storage s = Some Promise"
      by (cases "storage s") (auto intro: returned.exhaust)
    then show ?thesis
      using assms sync_void
      by (auto simp: proceed_def Let_def call_and_catch_def emit_def adapter_throws_def
          proceed_effects_def proceed_timeline_def)
  next
    case ok
    define t where "t = s\<lparr>state := (state s)(atomId change \<mapsto> newValue c),
      effects := effects s @
        (if storage s \<noteq> None then [StorageSet (''state:'' @ atomId change) (newValue c)] else []) @
        (if sync s \<noteq> None \<and> \<not> optimistic change then [SyncSend c] else [])\<rparr>"
    have st: "storage s = None \<or> storage s = Some Promise"
      using ok by (cases "storage s") (auto simp: adapter_throws_def intro: returned.exhaust)
    have sy: "sync s = None \<or> sync s = Some Promise \<or> optimistic change"
      using ok by (cases "sync s") (auto simp: adapter_throws_def intro: returned.exhaust)
    have first: "proceed change c s =
        (Inr (), notify_change (atomId change) (get_property (state s) (atomId change)) c t)"
      using assms st sy
      by (cases "sync s")
         (auto simp: proceed_def Let_def call_and_catch_def emit_def t_def)
    have "notify_change (atomId change) (get_property (state s) (atomId change)) c t =
         t\<lparr>timeline := (if debug_timeTravel t
                         then timeline t @
                           [\<lparr>entry_timestamp = now t, entry_snapshot = state t,
                             entry_change = Some c, entry_id = nanoid t (idCount t)\<rparr>]
                         else timeline t),
           idCount := (if debug_timeTravel t then Suc (idCount t) else idCount t),
           effects := effects t @ completion_effects change c s\<rparr>"
      by (rule notify_change_eq) (simp_all add: t_def)
    also have "\<dots> = s\<lparr>state := (state s)(atomId change \<mapsto> newValue c),
        timeline := proceed_timeline change c s,
        idCount := (if debug_timeTravel s \<and> \<not> adapter_throws change s
                    then Suc (idCount s) else idCount s),
        effects := effects s @ proceed_effects change c s\<rparr>"
      using ok st
      by (auto simp: t_def proceed_timeline_def proceed_effects_def debug_timeTravel_def)
    finally show ?thesis
      using first ok by simp
  qed
qed

lemma proceed_noop:
  "\<not> has_property (state s) (atomId change) \<Longrightarrow> proceed change c s = (Inr (), s)"
  by (simp add: proceed_def)

subsection \<open>The middleware pipeline\<close>

text \<open>
  A relation between the store before and after that holds across \<open>proceed\<close> holds
  across the whole pipeline, whatever the middlewares hand on and whether or not an
  exception ends it; and middlewares that pass every change on reduce the pipeline to
  \<open>proceed\<close>.
\<close>

lemma fold_rel:
  assumes refl: "\<And>s. P s \<Longrightarrow> R s s"
    and trans: "\<And>a b c. R a b \<Longrightarrow> R b c \<Longrightarrow> R a c"
    and pres: "\<And>a b. P a \<Longrightarrow> R a b \<Longrightarrow> P b"
    and step: "\<And>x s. x \<in> set xs \<Longrightarrow> P s \<Longrightarrow> R s (snd (f x s))"
  shows "P s \<Longrightarrow>
    R s (snd (fold (\<lambda>x (thrown, t). case thrown of Inl err \<Rightarrow> (Inl err, t) | Inr u \<Rightarrow> f x t)
           xs (r, s)))"
  using step
proof (induction xs arbitrary: s r)
  case Nil
  then show ?case by (simp add: refl)
next
  case (Cons x xs)
  define p where "p = (case r of Inl err \<Rightarrow> (Inl err, s) | Inr u \<Rightarrow> f x s)"
  have first: "R s (snd p)"
    using Cons.prems refl by (cases r) (simp_all add: p_def)
  then have "P (snd p)" using Cons.prems(1) pres by blast
  then have "R (snd p)
      (snd (fold (\<lambda>x (thrown, t). case thrown of Inl err \<Rightarrow> (Inl err, t) | Inr u \<Rightarrow> f x t)
           xs (fst p, snd p)))"
    using Cons.IH [of "snd p" "fst p"] Cons.prems(2) by simp
  with first show ?case using trans by (auto simp: p_def)
qed

lemma applyMiddlewares_rel:
  assumes refl: "\<And>s. P s \<Longrightarrow> R s s"
    and trans: "\<And>a b c. R a b \<Longrightarrow> R b c \<Longrightarrow> R a c"
    and pres: "\<And>a b. P a \<Longrightarrow> R a b \<Longrightarrow> P b"
    and step: "\<And>c s. P s \<Longrightarrow> R s (snd (proceed change c s))"
  shows "P s \<Longrightarrow> R s (snd (applyMiddlewares ms change index c s))"
  using step
proof (induction ms change index c s rule: applyMiddlewares.induct)
  case (1 ms change index currentChange s)
  note start = "1.prems"(1) and step' = "1.prems"(2)
  show ?case
  proof (cases "index \<ge> length ms")
    case True
    then have eq: "applyMiddlewares ms change index currentChange s = proceed change currentChange s"
      by (subst applyMiddlewares.simps) simp
    have "R s (snd (proceed change currentChange s))"
      by (rule step' [OF start])
    then show ?thesis
      by (simp only: eq)
  next
    case False
    have "R s (snd (fold (\<lambda>nextChange (thrown, t).
                   case thrown of
                     Inl err \<Rightarrow> (Inl err, t)
                   | Inr u \<Rightarrow> applyMiddlewares ms change (Suc index) nextChange t)
             ((ms ! index) currentChange) (Inr (), s)))"
    proof (rule fold_rel [where P = P and R = R])
      show "\<And>t. P t \<Longrightarrow> R t t" by (rule refl)
      show "\<And>a b c. R a b \<Longrightarrow> R b c \<Longrightarrow> R a c" by (rule trans)
      show "\<And>a b. P a \<Longrightarrow> R a b \<Longrightarrow> P b" by (rule pres)
      show "P s" by (rule start)
    next
      fix x s'
      assume "x \<in> set ((ms ! index) currentChange)" and "P s'"
      with False show "R s' (snd (applyMiddlewares ms change (Suc index) x s'))"
        by (rule "1.IH" [OF _ _ HOL.refl]) (rule step')
    qed
    then show ?thesis
      using False by (subst applyMiddlewares.simps) simp
  qed
qed

lemma applyMiddlewares_pass:
  assumes "\<forall>m \<in> set ms. \<forall>c. m c = [c]"
  shows "applyMiddlewares ms change index c s = proceed change c s"
  using assms
proof (induction ms change index c s rule: applyMiddlewares.induct)
  case (1 ms change index currentChange s)
  show ?case
  proof (cases "index \<ge> length ms")
    case True
    then show ?thesis by (subst applyMiddlewares.simps) simp
  next
    case False
    then have one: "(ms ! index) currentChange = [currentChange]"
      using "1.prems" by simp
    have "currentChange \<in> set ((ms ! index) currentChange)"
      by (simp only: one) simp
    with False have "applyMiddlewares ms change (Suc index) currentChange s =
        proceed change currentChange s"
      by (rule "1.IH" [OF _ _ refl]) (rule "1.prems")
    then show ?thesis
      using False one by (subst applyMiddlewares.simps) simp
  qed
qed

lemma applyChange_pass:
  assumes "\<not> isPaused s" and "\<forall>m \<in> set (middlewares s). \<forall>c. m c = [c]"
  shows "applyChange change s = proceed change change s"
  using assms by (simp add: applyChange_def applyMiddlewares_pass)

lemma fold_unchanged:
  assumes "\<And>x. x \<in> set xs \<Longrightarrow> f x s = (Inr (), s)"
  shows "fold (\<lambda>x (thrown, t). case thrown of Inl err \<Rightarrow> (Inl err, t) | Inr u \<Rightarrow> f x t)
           xs (Inr (), s) = (Inr (), s)"
  using assms by (induction xs) simp_all

lemma applyMiddlewares_unknown:
  assumes "\<not> has_property (state s) (atomId change)"
  shows "applyMiddlewares ms change index c s = (Inr (), s)"
  using assms
proof (induction ms change index c s rule: applyMiddlewares.induct)
  case (1 ms change index currentChange s)
  show ?case
  proof (cases "index \<ge> length ms")
    case True
    then show ?thesis
      using "1.prems" by (subst applyMiddlewares.simps) (simp add: proceed_noop)
  next
    case False
    have "fold (\<lambda>nextChange (thrown, t).
                   case thrown of
                     Inl err \<Rightarrow> (Inl err, t)
                   | Inr u \<Rightarrow> applyMiddlewares ms change (Suc index) nextChange t)
             ((ms ! index) currentChange) (Inr (), s) = (Inr (), s)"
    proof (rule fold_unchanged)
      fix x
      assume "x \<in> set ((ms ! index) currentChange)"
      with False show "applyMiddlewares ms change (Suc index) x s = (Inr (), s)"
        by (rule "1.IH" [OF _ _ refl]) (rule "1.prems")
    qed
    then show ?thesis
      using False by (subst applyMiddlewares.simps) simp
  qed
qed

lemma applyChange_unknown:
  assumes "\<not> has_property (state s) (atomId change)"
  shows "applyChange change s = (Inr (), s)"
  using assms by (simp add: applyChange_def applyMiddlewares_unknown)

subsection \<open>Traces of \<^verbatim>\<open>applyChange\<close>\<close>

lemma adds_only_refl: "adds_only Q s s"
  by (simp add: adds_only_def)

lemma adds_only_trans: "adds_only Q a b \<Longrightarrow> adds_only Q b c \<Longrightarrow> adds_only Q a c"
  by (auto simp: adds_only_def)

lemma adds_only_new_effects:
  "adds_only Q s s' \<Longrightarrow> (\<forall>e \<in> set (new_effects s s'). Q e) \<and> effects s' = effects s @ new_effects s s'"
  by (auto simp: adds_only_def new_effects_def)

lemma new_effects_append [simp]:
  "effects s' = effects s @ es \<Longrightarrow> new_effects s s' = es"
  by (simp add: new_effects_def)

lemma new_effects_same [simp]: "new_effects s s = []"
  by (simp add: new_effects_def)

lemma proceed_adds_only:
  assumes "\<forall>e \<in> set (proceed_effects change c s). Q e"
  shows "adds_only Q s (snd (proceed change c s))"
proof (cases "has_property (state s) (atomId change)")
  case True
  then show ?thesis
    using assms by (simp add: proceed_eq adds_only_def)
next
  case False
  then show ?thesis by (simp add: proceed_noop adds_only_refl)
qed

lemma proceed_frame:
  "selectorCache (snd (proceed change c s)) = selectorCache s"
  "isPaused (snd (proceed change c s)) = isPaused s"
  "middlewares (snd (proceed change c s)) = middlewares s"
  "atoms (snd (proceed change c s)) = atoms s"
  "atomSubscriptions (snd (proceed change c s)) = atomSubscriptions s"
  "selectorSubscriptions (snd (proceed change c s)) = selectorSubscriptions s"
  "storage (snd (proceed change c s)) = storage s"
  "sync (snd (proceed change c s)) = sync s"
  "debug (snd (proceed change c s)) = debug s"
  "clientId (snd (proceed change c s)) = clientId s"
  by (cases "has_property (state s) (atomId change)"; simp add: proceed_eq proceed_noop)+

lemma applyChange_adds_only:
  assumes inv: "P s"
    and step: "\<And>c t. P t \<Longrightarrow> \<forall>e \<in> set (proceed_effects change c t). Q e"
    and pres: "\<And>c t. P t \<Longrightarrow> P (snd (proceed change c t))"
  shows "adds_only Q s (snd (applyChange change s))"
proof (cases "isPaused s")
  case True
  then show ?thesis by (simp add: applyChange_def adds_only_refl)
next
  case False
  let ?R = "\<lambda>a b. adds_only Q a b \<and> P b"
  have "?R s (snd (applyMiddlewares (middlewares s) change 0 change s))"
  proof (rule applyMiddlewares_rel [where P = P and R = ?R])
    show "\<And>t. P t \<Longrightarrow> ?R t t" by (simp add: adds_only_refl)
    show "\<And>a b c. ?R a b \<Longrightarrow> ?R b c \<Longrightarrow> ?R a c" using adds_only_trans by blast
    show "\<And>a b. P a \<Longrightarrow> ?R a b \<Longrightarrow> P b" by simp
    show "\<And>c t. P t \<Longrightarrow> ?R t (snd (proceed change c t))"
      using step pres proceed_adds_only by blast
    show "P s" by (rule inv)
  qed
  then show ?thesis using False by (simp add: applyChange_def)
qed

lemma selector_effects_kind:
  "e \<in> set (selector_effects s sid) \<Longrightarrow>
     (\<exists>v. e = SelectorCall sid v) \<or> (\<exists>cb v. e = SelectorNotify sid cb v)"
  by (auto simp: selector_effects_def split: option.splits)

lemma filter_selector_effects:
  assumes "\<And>sid v. \<not> Q (SelectorCall sid v)" and "\<And>sid cb v. \<not> Q (SelectorNotify sid cb v)"
  shows "filter Q (concat (map (selector_effects s) sids)) = []"
proof -
  have "\<not> Q e" if "e \<in> set (selector_effects s sid)" for e sid
    using selector_effects_kind [OF that] assms by auto
  then show ?thesis
    by (auto simp: filter_empty_conv)
qed

lemma filter_completion_effects:
  "filter is_send (completion_effects change c s) = []"
  "filter is_storage_set (completion_effects change c s) = []"
  "filter is_atom_notify (completion_effects change c s) =
     map (\<lambda>cb. AtomNotify cb (c\<lparr>prevValue := get_property (state s) (atomId change)\<rparr>))
       (subscribers_of (atomSubscriptions s) (atomId change))"
  by (simp_all add: completion_effects_def filter_selector_effects filter_empty_conv)

lemma sends_of_proceed:
  "filter is_send (proceed_effects change c s) =
     (if storage s \<noteq> Some Void \<and> sync s \<noteq> None \<and> \<not> optimistic change then [SyncSend c] else [])"
  by (simp add: proceed_effects_def filter_completion_effects)

lemma storage_of_proceed:
  "filter is_storage_set (proceed_effects change c s) =
     (if storage s \<noteq> None then [StorageSet (''state:'' @ atomId change) (newValue c)] else [])"
  by (simp add: proceed_effects_def filter_completion_effects)

lemma notifications_of_proceed:
  "filter is_atom_notify (proceed_effects change c s) =
     (if adapter_throws change s then []
      else map (\<lambda>cb. AtomNotify cb (c\<lparr>prevValue := get_property (state s) (atomId change)\<rparr>))
             (subscribers_of (atomSubscriptions s) (atomId change)))"
  by (simp add: proceed_effects_def filter_completion_effects adapter_throws_def)

lemma example_pass:
  "\<not> isPaused example_store" "\<forall>m \<in> set (middlewares example_store). \<forall>c. m c = [c]"
  by (simp_all add: example_store_def)

lemma readme_pass:
  "\<not> isPaused readme_store" "\<forall>m \<in> set (middlewares readme_store). \<forall>c. m c = [c]"
  by (simp_all add: readme_store_def example_store_def)

lemma applyChange_applied:
  assumes "\<not> isPaused s" and "\<forall>m \<in> set (middlewares s). \<forall>c. m c = [c]"
    and "has_property (state s) (atomId change)"
  shows "applyChange change s =
     (if adapter_throws change s then Inl TypeError else Inr (),
      s\<lparr>state := (state s)(atomId change \<mapsto> newValue change),
        timeline := proceed_timeline change change s,
        idCount := (if debug_timeTravel s \<and> \<not> adapter_throws change s
                    then Suc (idCount s) else idCount s),
        effects := effects s @ proceed_effects change change s\<rparr>)"
  using assms by (simp add: applyChange_pass proceed_eq)

lemma applyChange_new_effects:
  assumes "\<not> isPaused s" and "\<forall>m \<in> set (middlewares s). \<forall>c. m c = [c]"
    and "has_property (state s) (atomId change)"
  shows "new_effects s (snd (applyChange change s)) = proceed_effects change change s"
  using assms by (simp add: applyChange_applied)

lemma applyChange_sends:
  fixes s :: "('a, 'r) store"
  shows "adds_only (\<lambda>e. is_send e \<longrightarrow> sync s \<noteq> None \<and> \<not> optimistic change) s
           (snd (applyChange change s))"
proof (rule applyChange_adds_only [where P = "\<lambda>t. sync t = sync s"])
  show "sync s = sync s" by simp
next
  fix c and t :: "('a, 'r) store"
  assume same: "sync t = sync s"
  show "\<forall>e \<in> set (proceed_effects change c t). is_send e \<longrightarrow> sync s \<noteq> None \<and> \<not> optimistic change"
  proof (intro ballI impI)
    fix e
    assume "e \<in> set (proceed_effects change c t)" and "is_send e"
    then have "e \<in> set (filter is_send (proceed_effects change c t))" by simp
    then show "sync s \<noteq> None \<and> \<not> optimistic change"
      using same by (simp add: sends_of_proceed split: if_splits)
  qed
  show "sync (snd (proceed change c t)) = sync s"
    using same by (simp add: proceed_frame)
qed

lemma applyChange_no_send:
  assumes "optimistic change \<or> sync s = None"
  shows "filter is_send (new_effects s (snd (applyChange change s))) = []"
proof -
  have "\<forall>e \<in> set (new_effects s (snd (applyChange change s))).
      is_send e \<longrightarrow> sync s \<noteq> None \<and> \<not> optimistic change"
    using adds_only_new_effects [OF applyChange_sends [of s change]] by blast
  then have "\<forall>e \<in> set (new_effects s (snd (applyChange change s))). \<not> is_send e"
    using assms by blast
  then show ?thesis by (simp add: filter_empty_conv)
qed

lemma applyChange_storage:
  fixes s :: "('a, 'r) store"
  shows "adds_only (\<lambda>e. is_storage_set e \<longrightarrow>
           storage s \<noteq> None \<and> (\<exists>v. e = StorageSet (''state:'' @ atomId change) v)) s
         (snd (applyChange change s))"
proof (rule applyChange_adds_only [where P = "\<lambda>t. storage t = storage s"])
  show "storage s = storage s" by simp
next
  fix c and t :: "('a, 'r) store"
  assume same: "storage t = storage s"
  show "\<forall>e \<in> set (proceed_effects change c t). is_storage_set e \<longrightarrow>
          storage s \<noteq> None \<and> (\<exists>v. e = StorageSet (''state:'' @ atomId change) v)"
  proof (intro ballI impI)
    fix e
    assume "e \<in> set (proceed_effects change c t)" and "is_storage_set e"
    then have "e \<in> set (filter is_storage_set (proceed_effects change c t))" by simp
    then show "storage s \<noteq> None \<and> (\<exists>v. e = StorageSet (''state:'' @ atomId change) v)"
      using same by (simp add: storage_of_proceed split: if_splits)
  qed
  show "storage (snd (proceed change c t)) = storage s"
    using same by (simp add: proceed_frame)
qed

subsection \<open>Local updates and transactions\<close>

lemma validate_atom_Some:
  "atoms s k = Some a \<Longrightarrow> validate_atom s k v = validate a v"
  by (simp add: validate_atom_def)

lemma local_change_fields [simp]:
  "atomId (local_change k w opt s) = k"
  "prevValue (local_change k w opt s) = get_property (state s) k"
  "newValue (local_change k w opt s) = w"
  "source (local_change k w opt s) = clientId s"
  "optimistic (local_change k w opt s) = opt"
  by (simp_all add: local_change_def createChangeEvent_def)

lemma adapter_throws_idCount [simp]:
  "adapter_throws change (s\<lparr>idCount := n\<rparr>) = adapter_throws change s"
  by (simp add: adapter_throws_def)

lemma proceed_effects_idCount [simp]:
  "proceed_effects change c (s\<lparr>idCount := n\<rparr>) = proceed_effects change c s"
proof -
  have "selector_effects (s\<lparr>idCount := n, state := (state s)(atomId change \<mapsto> newValue c)\<rparr>)
      = selector_effects (s\<lparr>state := (state s)(atomId change \<mapsto> newValue c)\<rparr>)"
    by (rule selector_effects_cong) simp_all
  then show ?thesis
    by (simp add: proceed_effects_def completion_effects_def debug_logChanges_def)
qed

lemma proceed_applied:
  assumes "has_property (state s) (atomId change)"
  shows "fst (proceed change c s) = (if adapter_throws change s then Inl TypeError else Inr ())"
    and "state (snd (proceed change c s)) = (state s)(atomId change \<mapsto> newValue c)"
    and "effects (snd (proceed change c s)) = effects s @ proceed_effects change c s"
  using assms by (simp_all add: proceed_eq)

text \<open>
  A valid update on a store that is not paused and whose middlewares pass changes on: it
  returns when no adapter call throws, and otherwise reports the \<^verbatim>\<open>TypeError\<close> under the
  message for invalid values and rethrows it.
\<close>

lemma updateAtom_valid:
  assumes "validate_atom s k v = Inr w" and "\<not> isPaused s"
    and "\<forall>m \<in> set (middlewares s). \<forall>c. m c = [c]"
  shows "updateAtom k (Direct v) opt s =
     (case proceed (local_change k w opt s) (local_change k w opt s)
             (s\<lparr>idCount := Suc (idCount s)\<rparr>) of
        (Inl err, s2) \<Rightarrow>
          (Inl err, emit (ConsoleError (''Invalid value for atom '' @ k @ '':'') err) s2)
      | (Inr u, s2) \<Rightarrow> (Inr (), s2))"
proof -
  have "applyChange (local_change k w opt s) (s\<lparr>idCount := Suc (idCount s)\<rparr>) =
      proceed (local_change k w opt s) (local_change k w opt s) (s\<lparr>idCount := Suc (idCount s)\<rparr>)"
    by (rule applyChange_pass) (use assms in simp_all)
  then show ?thesis
    using assms(1) by (simp add: updateAtom_def local_change_def createChangeEvent_def)
qed

lemma updateAtom_valid_result:
  assumes "validate_atom s k v = Inr w" and "\<not> isPaused s"
    and "\<forall>m \<in> set (middlewares s). \<forall>c. m c = [c]"
    and "has_property (state s) k"
    and "\<not> adapter_throws (local_change k w opt s) s"
  shows "fst (updateAtom k (Direct v) opt s) = Inr ()"
    and "state (snd (updateAtom k (Direct v) opt s)) = (state s)(k \<mapsto> w)"
    and "effects (snd (updateAtom k (Direct v) opt s)) =
           effects s @ proceed_effects (local_change k w opt s) (local_change k w opt s) s"
    and "atoms (snd (updateAtom k (Direct v) opt s)) = atoms s"
    and "isPaused (snd (updateAtom k (Direct v) opt s)) = isPaused s"
    and "middlewares (snd (updateAtom k (Direct v) opt s)) = middlewares s"
    and "atomSubscriptions (snd (updateAtom k (Direct v) opt s)) = atomSubscriptions s"
    and "storage (snd (updateAtom k (Direct v) opt s)) = storage s"
    and "sync (snd (updateAtom k (Direct v) opt s)) = sync s"
proof -
  define c where "c = local_change k w opt s"
  define s1 where "s1 = s\<lparr>idCount := Suc (idCount s)\<rparr>"
  have field: "has_property (state s1) (atomId c)"
    using assms(4) by (simp add: c_def s1_def)
  have quiet: "\<not> adapter_throws c s1"
    using assms(5) by (simp add: c_def s1_def)
  have res: "fst (proceed c c s1) = Inr ()"
    using proceed_applied(1) [OF field, of c] quiet by simp
  have eq: "updateAtom k (Direct v) opt s = (Inr (), snd (proceed c c s1))"
    using updateAtom_valid [OF assms(1,2,3), of opt] res
    by (cases "proceed c c s1") (simp add: c_def s1_def)
  show "fst (updateAtom k (Direct v) opt s) = Inr ()"
    by (simp add: eq)
  show "state (snd (updateAtom k (Direct v) opt s)) = (state s)(k \<mapsto> w)"
    using proceed_applied(2) [OF field, of c] by (simp add: eq) (simp add: c_def s1_def)
  show "effects (snd (updateAtom k (Direct v) opt s)) =
           effects s @ proceed_effects (local_change k w opt s) (local_change k w opt s) s"
    using proceed_applied(3) [OF field, of c] by (simp add: eq) (simp add: c_def s1_def)
  show "atoms (snd (updateAtom k (Direct v) opt s)) = atoms s"
    "isPaused (snd (updateAtom k (Direct v) opt s)) = isPaused s"
    "middlewares (snd (updateAtom k (Direct v) opt s)) = middlewares s"
    "atomSubscriptions (snd (updateAtom k (Direct v) opt s)) = atomSubscriptions s"
    "storage (snd (updateAtom k (Direct v) opt s)) = storage s"
    "sync (snd (updateAtom k (Direct v) opt s)) = sync s"
    by (simp_all add: eq proceed_frame) (simp_all add: s1_def)
qed

lemma updateAtom_throws:
  assumes "validate_atom s k v = Inr w" and "\<not> isPaused s"
    and "\<forall>m \<in> set (middlewares s). \<forall>c. m c = [c]"
    and "has_property (state s) k"
    and "adapter_throws (local_change k w opt s) s"
  shows "fst (updateAtom k (Direct v) opt s) = Inl TypeError"
    and "state (snd (updateAtom k (Direct v) opt s)) = (state s)(k \<mapsto> w)"
    and "effects (snd (updateAtom k (Direct v) opt s)) =
           effects s @ proceed_effects (local_change k w opt s) (local_change k w opt s) s @
           [ConsoleError (''Invalid value for atom '' @ k @ '':'') TypeError]"
proof -
  define c where "c = local_change k w opt s"
  define s1 where "s1 = s\<lparr>idCount := Suc (idCount s)\<rparr>"
  have field: "has_property (state s1) (atomId c)"
    using assms(4) by (simp add: c_def s1_def)
  have loud: "adapter_throws c s1"
    using assms(5) by (simp add: c_def s1_def)
  have res: "fst (proceed c c s1) = Inl TypeError"
    using proceed_applied(1) [OF field, of c] loud by simp
  have eq: "updateAtom k (Direct v) opt s =
      (Inl TypeError,
       emit (ConsoleError (''Invalid value for atom '' @ k @ '':'') TypeError)
         (snd (proceed c c s1)))"
    using updateAtom_valid [OF assms(1,2,3), of opt] res
    by (cases "proceed c c s1") (simp add: c_def s1_def)
  show "fst (updateAtom k (Direct v) opt s) = Inl TypeError"
    by (simp add: eq)
  show "state (snd (updateAtom k (Direct v) opt s)) = (state s)(k \<mapsto> w)"
    using proceed_applied(2) [OF field, of c]
    by (simp add: eq emit_def) (simp add: c_def s1_def)
  show "effects (snd (updateAtom k (Direct v) opt s)) =
           effects s @ proceed_effects (local_change k w opt s) (local_change k w opt s) s @
           [ConsoleError (''Invalid value for atom '' @ k @ '':'') TypeError]"
    using proceed_applied(3) [OF field, of c]
    by (simp add: eq emit_def) (simp add: c_def s1_def)
qed

lemma validate_atom_cong:
  "atoms s' = atoms s \<Longrightarrow> validate_atom s' k v = validate_atom s k v"
  by (simp add: validate_atom_def)

lemma tx_update_valid:
  assumes "validate_atom s k v = Inr w"
  shows "fst (tx_update k v tx s) = Inr ()"
    and "snd (snd (tx_update k v tx s)) = s"
    and "changes (fst (snd (tx_update k v tx s))) = map_set (changes tx) k w"
  using assms by (simp_all add: tx_update_def Let_def)

lemma has_property_upd:
  "has_property m k \<Longrightarrow> has_property (m(k' \<mapsto> v)) k"
  by (simp add: has_property_def)

lemma get_property_other:
  "k \<noteq> k' \<Longrightarrow> get_property (m(k' \<mapsto> v)) k = get_property m k"
  by (simp add: get_property_def)

lemma commit_entries_step:
  assumes "\<not> is_function v" and "fst (updateAtom k (Direct v) False s) = Inr ()"
  shows "commit_entries ((k, v) # rest) s =
           commit_entries rest (snd (updateAtom k (Direct v) False s))"
  using assms
  by (cases "updateAtom k (Direct v) False s") (auto simp: as_update_arg_def split: sum.splits)

lemma commit_entries_throws:
  assumes "\<not> is_function v" and "fst (updateAtom k (Direct v) False s) = Inl err"
  shows "commit_entries ((k, v) # rest) s = (Inl err, snd (updateAtom k (Direct v) False s))"
  using assms
  by (cases "updateAtom k (Direct v) False s") (auto simp: as_update_arg_def split: sum.splits)

text \<open>A pending value that is a function is called on the current value at commit.\<close>

lemma commit_entries_function:
  assumes "is_function v"
  shows "commit_entries ((k, v) # rest) s =
     (case updateAtom k (Updater (call s v)) False s of
        (Inl err, s1) \<Rightarrow> (Inl err, s1)
      | (Inr u, s1) \<Rightarrow> commit_entries rest s1)"
  using assms by (simp add: as_update_arg_def)

lemma tx_commit_ok:
  assumes "commit_entries (changes tx) s = (Inr (), s')"
  shows "fst (tx_commit tx s) = Inr ()"
    and "changes (fst (snd (tx_commit tx s))) = []"
    and "snd (snd (tx_commit tx s)) = s'"
  using assms by (simp_all add: tx_commit_def)

lemma tx_commit_throws:
  assumes "commit_entries (changes tx) s = (Inl err, s')"
  shows "fst (tx_commit tx s) = Inl err"
    and "fst (snd (tx_commit tx s)) = tx"
    and "snd (snd (tx_commit tx s)) = s'"
  using assms by (simp_all add: tx_commit_def)

lemma example_validate:
  "0 \<le> n \<Longrightarrow> validate_atom example_store ''count'' (Data n) = Inr (Data n)"
  "0 \<le> n \<Longrightarrow> validate_atom example_store ''total'' (Data n) = Inr (Data n)"
  by (simp_all add: validate_atom_def example_store_def nonneg_def)

lemma readme_validate:
  "0 \<le> n \<Longrightarrow> validate_atom readme_store ''count'' (Data n) = Inr (Data n)"
  "0 \<le> n \<Longrightarrow> validate_atom readme_store ''total'' (Data n) = Inr (Data n)"
  by (simp_all add: validate_atom_def readme_store_def example_store_def nonneg_def)

lemma example_tx_updates:
  "tx_update ''count'' (Data 1) createTransaction example_store = (Inr (), example_tx1, example_store)"
  "tx_update ''total'' (Data 2) example_tx1 example_store = (Inr (), example_tx2, example_store)"
  "tx_update ''count'' (Data 2) example_tx1 example_store = (Inr (), example_tx3, example_store)"
  by (simp_all add: tx_update_def example_validate createTransaction_def example_tx1_def
      example_tx2_def example_tx3_def get_property_def example_store_def [THEN arg_cong, of state])

lemma readme_fields:
  "state readme_store = state example_store"
  "atoms readme_store = atoms example_store"
  "atomSubscriptions readme_store = atomSubscriptions example_store"
  "selectorSubscriptions readme_store = selectorSubscriptions example_store"
  "selectorCache readme_store = selectorCache example_store"
  "debug readme_store = debug example_store"
  "storage readme_store = Some Void"
  "sync readme_store = Some Void"
  by (simp_all add: readme_store_def)

lemma readme_tx_updates:
  "tx_update ''count'' (Data 1) createTransaction readme_store = (Inr (), example_tx1, readme_store)"
  "tx_update ''total'' (Data 2) example_tx1 readme_store = (Inr (), example_tx2, readme_store)"
  "tx_update ''count'' (Data 2) example_tx1 readme_store = (Inr (), example_tx3, readme_store)"
  by (simp_all add: tx_update_def readme_validate createTransaction_def example_tx1_def
      example_tx2_def example_tx3_def get_property_def readme_fields
      example_store_def [THEN arg_cong, of state])

text \<open>
  On the store of the README every change of \<^verbatim>\<open>count\<close> or \<^verbatim>\<open>total\<close> that is applied
  ends in the \<^verbatim>\<open>TypeError\<close> after \<^verbatim>\<open>storage.set\<close>.
\<close>

lemma readme_applied:
  assumes "atomId change = ''count'' \<or> atomId change = ''total''"
  shows "fst (applyChange change readme_store) = Inl TypeError"
    and "state (snd (applyChange change readme_store)) =
           (state example_store)(atomId change \<mapsto> newValue change)"
    and "new_effects readme_store (snd (applyChange change readme_store)) =
           [StorageSet (''state:'' @ atomId change) (newValue change)]"
proof -
  have field: "has_property (state readme_store) (atomId change)"
    using assms by (auto simp: has_property_def readme_fields example_store_def)
  have throws: "adapter_throws change readme_store"
    by (simp add: adapter_throws_def readme_fields)
  note eq = applyChange_applied [OF readme_pass field]
  show "fst (applyChange change readme_store) = Inl TypeError"
    using throws by (simp add: eq)
  show "state (snd (applyChange change readme_store)) =
           (state example_store)(atomId change \<mapsto> newValue change)"
    by (simp add: eq readme_fields)
  show "new_effects readme_store (snd (applyChange change readme_store)) =
           [StorageSet (''state:'' @ atomId change) (newValue change)]"
    by (simp add: eq proceed_effects_def readme_fields)
qed

subsection \<open>Which selectors a change reaches\<close>

lemma fold_affected_set:
  "set (fold (\<lambda>(sid, c) acc. if k \<in> deps c then set_add acc sid else acc) xs acc) =
     set acc \<union> {sid. \<exists>c. (sid, c) \<in> set xs \<and> k \<in> deps c}"
proof (induction xs arbitrary: acc)
  case Nil
  then show ?case by simp
next
  case (Cons x xs)
  obtain sid c where x: "x = (sid, c)" by (cases x)
  show ?case
  proof (cases "k \<in> deps c")
    case True
    then show ?thesis
      unfolding x by (simp add: Cons.IH set_add_def) blast
  next
    case False
    then show ?thesis
      unfolding x by (simp add: Cons.IH) blast
  qed
qed

lemma fold_affected_distinct:
  "distinct acc \<Longrightarrow>
     distinct (fold (\<lambda>(sid, c) acc. if k \<in> deps c then set_add acc sid else acc) xs acc)"
proof (induction xs arbitrary: acc)
  case Nil
  then show ?case by simp
next
  case (Cons x xs)
  obtain sid c where x: "x = (sid, c)" by (cases x)
  have "distinct (if k \<in> deps c then set_add acc sid else acc)"
    using Cons.prems by (simp add: set_add_def)
  then show ?case
    unfolding x using Cons.IH by simp
qed

lemma affectedSelectors_set:
  "set (affectedSelectors s k) = {sid. \<exists>c. (sid, c) \<in> set (selectorCache s) \<and> k \<in> deps c}"
  by (simp add: affectedSelectors_def fold_affected_set)

lemma affectedSelectors_distinct: "distinct (affectedSelectors s k)"
  by (simp add: affectedSelectors_def fold_affected_distinct)

lemma affectedSelectors_mem:
  assumes "map_of (selectorCache s) sid = Some c" and "distinct (map fst (selectorCache s))"
  shows "sid \<in> set (affectedSelectors s k) \<longleftrightarrow> k \<in> deps c"
proof -
  have "c' = c" if "(sid, c') \<in> set (selectorCache s)" for c'
    using that assms by (simp add: map_of_is_SomeI)
  moreover have "(sid, c) \<in> set (selectorCache s)"
    using assms(1) by (rule map_of_SomeD)
  ultimately show ?thesis
    unfolding affectedSelectors_set by blast
qed

lemma filter_concat_one:
  assumes "distinct xs" and "\<And>y. y \<noteq> x \<Longrightarrow> filter P (g y) = []"
  shows "filter P (concat (map g xs)) = (if x \<in> set xs then filter P (g x) else [])"
  using assms(1)
proof (induction xs)
  case Nil
  then show ?case by simp
next
  case (Cons y ys)
  show ?case
  proof (cases "y = x")
    case True
    then have "x \<notin> set ys" using Cons.prems by simp
    then have "filter P (concat (map g ys)) = []"
      using Cons by simp
    then show ?thesis using True by simp
  next
    case False
    then show ?thesis using Cons assms(2) by simp
  qed
qed

lemma selector_effects_other:
  "sid' \<noteq> sid \<Longrightarrow> filter (is_of_selector sid) (selector_effects t sid') = []"
  by (auto simp: selector_effects_def filter_empty_conv split: option.splits)

lemma selector_effects_own:
  "filter (is_of_selector sid) (selector_effects t sid) = selector_effects t sid"
  by (auto simp: selector_effects_def filter_id_conv split: option.splits)

lemma selector_of_completion:
  "filter (is_of_selector sid) (completion_effects change c s) =
     (if sid \<in> set (affectedSelectors s (atomId change))
      then selector_effects (s\<lparr>state := (state s)(atomId change \<mapsto> newValue c)\<rparr>) sid
      else [])"
proof -
  have "filter (is_of_selector sid)
      (concat (map (selector_effects (s\<lparr>state := (state s)(atomId change \<mapsto> newValue c)\<rparr>))
        (affectedSelectors s (atomId change)))) =
     (if sid \<in> set (affectedSelectors s (atomId change))
      then filter (is_of_selector sid)
        (selector_effects (s\<lparr>state := (state s)(atomId change \<mapsto> newValue c)\<rparr>) sid)
      else [])"
    by (rule filter_concat_one) (simp_all add: affectedSelectors_distinct selector_effects_other)
  then show ?thesis
    by (simp add: completion_effects_def selector_effects_own filter_empty_conv)
qed

lemma selector_of_proceed:
  "filter (is_of_selector sid) (proceed_effects change c s) =
     (if sid \<in> set (affectedSelectors s (atomId change)) \<and> \<not> adapter_throws change s
      then selector_effects (s\<lparr>state := (state s)(atomId change \<mapsto> newValue c)\<rparr>) sid
      else [])"
  by (auto simp: proceed_effects_def selector_of_completion adapter_throws_def)

lemma applyChange_other_selector:
  fixes s :: "('a, 'r) store"
  assumes "sid \<notin> set (affectedSelectors s (atomId change))"
  shows "filter (is_of_selector sid) (new_effects s (snd (applyChange change s))) = []"
proof -
  have "adds_only (\<lambda>e. \<not> is_of_selector sid e) s (snd (applyChange change s))"
  proof (rule applyChange_adds_only [where P = "\<lambda>t. selectorCache t = selectorCache s"])
    show "selectorCache s = selectorCache s" by simp
  next
    fix c and t :: "('a, 'r) store"
    assume same: "selectorCache t = selectorCache s"
    then have "affectedSelectors t (atomId change) = affectedSelectors s (atomId change)"
      by (simp add: affectedSelectors_def)
    then have "filter (is_of_selector sid) (proceed_effects change c t) = []"
      using assms by (simp add: selector_of_proceed)
    then show "\<forall>e \<in> set (proceed_effects change c t). \<not> is_of_selector sid e"
      by (simp add: filter_empty_conv)
    show "selectorCache (snd (proceed change c t)) = selectorCache s"
      using same by (simp add: proceed_frame)
  qed
  then have "\<forall>e \<in> set (new_effects s (snd (applyChange change s))). \<not> is_of_selector sid e"
    using adds_only_new_effects by blast
  then show ?thesis by (simp add: filter_empty_conv)
qed

subsection \<open>Registration of selectors\<close>

text \<open>
  \<^verbatim>\<open>Map.prototype.set\<close> keeps the keys distinct, and \<^verbatim>\<open>createSelector\<close> with explicit
  dependencies registers exactly these.
\<close>

lemma map_of_map_set: "map_of (map_set kvs k v) = (map_of kvs)(k \<mapsto> v)"
  by (induction kvs) auto

lemma set_map_set: "fst ` set (map_set kvs k v) = insert k (fst ` set kvs)"
proof -
  have "fst ` set (map_set kvs k v) = dom (map_of (map_set kvs k v))"
    by (simp add: dom_map_of_conv_image_fst)
  also have "\<dots> = insert k (fst ` set kvs)"
    by (simp add: map_of_map_set dom_map_of_conv_image_fst)
  finally show ?thesis .
qed

lemma distinct_map_set:
  "distinct (map fst kvs) \<Longrightarrow> distinct (map fst (map_set kvs k v))"
proof (induction kvs)
  case Nil
  then show ?case by simp
next
  case (Cons kv kvs)
  obtain k' v' where kv: "kv = (k', v')" by (cases kv)
  show ?case
  proof (cases "k' = k")
    case True
    then show ?thesis using Cons.prems by (simp add: kv)
  next
    case False
    have "k' \<notin> fst ` set (map_set kvs k v)"
      using False Cons.prems by (simp add: kv set_map_set)
    then show ?thesis
      using False Cons by (simp add: kv)
  qed
qed

lemma createSelector_explicit:
  assumes "ds \<noteq> []"
  shows "map_of (selectorCache (snd (createSelector f (Some ds) s))) (fst (createSelector f (Some ds) s))
           = Some \<lparr>deps = set ds, selector = f\<rparr>"
    and "distinct (map fst (selectorCache s)) \<Longrightarrow>
           distinct (map fst (selectorCache (snd (createSelector f (Some ds) s))))"
    and "effects (snd (createSelector f (Some ds) s)) = effects s"
  using assms by (simp_all add: createSelector_def Let_def map_of_map_set distinct_map_set)

subsection \<open>Inherited property names\<close>

text \<open>
  The test \<^verbatim>\<open>atomKey in state\<close> looks at the prototype chain too. A change event whose
  \<^verbatim>\<open>atomId\<close> is a property name of \<^verbatim>\<open>Object.prototype\<close> passes it although it is no
  atom: when it is applied, the snapshot gets an entry under that name, and the value is
  written to the storage adapter.
\<close>

lemma inherited_name_applied:
  assumes "atomId change \<in> set object_prototype_keys"
    and "\<not> isPaused s" and "\<forall>m \<in> set (middlewares s). \<forall>c. m c = [c]"
  shows "state (snd (applyChange change s)) (atomId change) = Some (newValue change)"
    and "filter is_storage_set (new_effects s (snd (applyChange change s))) =
         (if storage s \<noteq> None
          then [StorageSet (''state:'' @ atomId change) (newValue change)] else [])"
proof -
  have found: "has_property (state s) (atomId change)"
    using assms(1) by (simp add: has_property_def)
  have eq: "applyChange change s = proceed change change s"
    using assms(2,3) by (rule applyChange_pass)
  show "state (snd (applyChange change s)) (atomId change) = Some (newValue change)"
    using found by (simp add: eq proceed_applied)
  show "filter is_storage_set (new_effects s (snd (applyChange change s))) =
         (if storage s \<noteq> None
          then [StorageSet (''state:'' @ atomId change) (newValue change)] else [])"
    using proceed_applied(3) [OF found, of change]
    by (simp add: eq storage_of_proceed)
qed

text \<open>The concrete store has no atom \<^verbatim>\<open>toString\<close> and gets an entry for it.\<close>

lemma inherited_name_applied_example:
  "atoms example_store ''toString'' = None"
  "state example_store ''toString'' = None"
  "state (snd (applyChange inherited_change example_store)) ''toString'' = Some (Data 5)"
proof -
  have h: "atomId inherited_change \<in> set object_prototype_keys"
    by (simp add: inherited_change_def object_prototype_keys_def)
  show "atoms example_store ''toString'' = None" "state example_store ''toString'' = None"
    by (simp_all add: example_store_def)
  show "state (snd (applyChange inherited_change example_store)) ''toString'' = Some (Data 5)"
    using inherited_name_applied(1) [OF h example_pass]
    by (simp add: inherited_change_def)
qed

subsection \<open>Stores whose adapter calls return promises\<close>

text \<open>
  What the store does where no adapter call throws: the adapter is absent, or its \<^verbatim>\<open>set\<close>
  (its \<^verbatim>\<open>sendChange\<close>) returns a promise. The subscribers are named by the lists the
  subscription maps hold.
\<close>

lemma no_throw:
  "storage s \<noteq> Some Void \<Longrightarrow> sync s \<noteq> Some Void \<or> optimistic change \<Longrightarrow>
     \<not> adapter_throws change s"
  by (auto simp: adapter_throws_def)

text \<open>
  An optimistic change never reaches \<^verbatim>\<open>sendChange\<close>. When it is applied, the snapshot
  holds the new value and each subscriber of the atom is called once, in subscription
  order, with the change carrying the previous and the new value.
\<close>

lemma optimistic_change_applied_not_sent:
  assumes "optimistic change"
  shows "filter is_send (new_effects s (snd (applyChange change s))) = []"
    and "\<lbrakk>\<not> isPaused s; \<forall>m \<in> set (middlewares s). \<forall>c. m c = [c];
          has_property (state s) (atomId change); storage s \<noteq> Some Void;
          atomSubscriptions s (atomId change) = Some subs\<rbrakk> \<Longrightarrow>
         fst (applyChange change s) = Inr ()
         \<and> state (snd (applyChange change s)) (atomId change) = Some (newValue change)
         \<and> filter is_atom_notify (new_effects s (snd (applyChange change s))) =
             map (\<lambda>cb. AtomNotify cb
                    (change\<lparr>prevValue := get_property (state s) (atomId change)\<rparr>)) subs"
proof -
  show "filter is_send (new_effects s (snd (applyChange change s))) = []"
    using assms by (simp add: applyChange_no_send)
  assume run: "\<not> isPaused s" "\<forall>m \<in> set (middlewares s). \<forall>c. m c = [c]"
    and field: "has_property (state s) (atomId change)"
    and quiet: "storage s \<noteq> Some Void"
    and subs: "atomSubscriptions s (atomId change) = Some subs"
  have calm: "\<not> adapter_throws change s"
    using quiet assms by (simp add: no_throw)
  show "fst (applyChange change s) = Inr ()
         \<and> state (snd (applyChange change s)) (atomId change) = Some (newValue change)
         \<and> filter is_atom_notify (new_effects s (snd (applyChange change s))) =
             map (\<lambda>cb. AtomNotify cb
                    (change\<lparr>prevValue := get_property (state s) (atomId change)\<rparr>)) subs"
    using calm subs
    by (simp add: applyChange_applied [OF run field] notifications_of_proceed subscribers_of_def)
qed

lemma optimistic_change_applied_example:
  "fst (syncListener peer_optimistic_change example_store) = Inr ()"
  "state (snd (syncListener peer_optimistic_change example_store)) ''count'' = Some (Data 5)"
  "filter is_atom_notify
     (new_effects example_store (snd (syncListener peer_optimistic_change example_store)))
   = [AtomNotify 1 peer_optimistic_change, AtomNotify 2 peer_optimistic_change]"
  "filter is_send
     (new_effects example_store (snd (syncListener peer_optimistic_change example_store))) = []"
proof -
  have h: "optimistic peer_optimistic_change"
    "has_property (state example_store) (atomId peer_optimistic_change)"
    "storage example_store \<noteq> Some Void"
    "atomSubscriptions example_store (atomId peer_optimistic_change) = Some [1, 2]"
    by (simp_all add: example_store_def peer_optimistic_change_def has_property_def)
  have eq: "syncListener peer_optimistic_change example_store =
      applyChange peer_optimistic_change example_store"
    by (simp add: syncListener_def example_store_def peer_optimistic_change_def)
  note res = optimistic_change_applied_not_sent(2) [OF h(1) example_pass h(2,3,4)]
  have prev: "peer_optimistic_change
      \<lparr>prevValue := get_property (state example_store) (atomId peer_optimistic_change)\<rparr>
      = peer_optimistic_change"
    by (simp add: peer_optimistic_change_def example_store_def get_property_def)
  show "fst (syncListener peer_optimistic_change example_store) = Inr ()"
    using res by (simp add: eq)
  show "state (snd (syncListener peer_optimistic_change example_store)) ''count'' = Some (Data 5)"
    using res by (simp add: eq) (simp add: peer_optimistic_change_def)
  show "filter is_atom_notify
     (new_effects example_store (snd (syncListener peer_optimistic_change example_store)))
   = [AtomNotify 1 peer_optimistic_change, AtomNotify 2 peer_optimistic_change]"
    using res by (simp add: eq prev)
  show "filter is_send
     (new_effects example_store (snd (syncListener peer_optimistic_change example_store))) = []"
    using optimistic_change_applied_not_sent(1) [OF h(1)] by (simp add: eq)
qed

text \<open>
  A transaction is given a valid value for \<open>A\<close> and then one for \<open>B\<close>, a different field;
  valid means that the validator accepts the value and accepts its own result as it is,
  and that the result is no function. Both updates succeed and leave the store untouched,
  with \<open>A\<close> pending before \<open>B\<close>. A rollback then leaves the store untouched, on every
  store. A commit succeeds, sets both fields to the pending values, and the calls of atom
  subscribers are: every subscriber of \<open>A\<close> with one event for \<open>A\<close>, then every subscriber
  of \<open>B\<close> with one event for \<open>B\<close>.
\<close>

lemma commit_one:
  assumes valid: "validate_atom s A w = Inr w" and plain: "\<not> is_function w"
    and field: "has_property (state s) A"
    and run: "\<not> isPaused s" "\<forall>m \<in> set (middlewares s). \<forall>c. m c = [c]"
    and quiet: "\<not> adapter_throws (local_change A w False s) s"
  shows "commit_entries ((A, w) # rest) s =
           commit_entries rest (snd (updateAtom A (Direct w) False s))"
  by (rule commit_entries_step [OF plain])
     (rule updateAtom_valid_result(1) [OF valid run field quiet])

lemma transaction_rollback:
  "snd (tx_rollback tx s) = s" "changes (fst (tx_rollback tx s)) = []"
  by (simp_all add: tx_rollback_def)

lemma transaction_commit_in_order:
  assumes "A \<noteq> B"
    and "validate_atom s A vA = Inr wA" and "validate_atom s A wA = Inr wA"
    and "validate_atom s B vB = Inr wB" and "validate_atom s B wB = Inr wB"
    and "\<not> is_function wA" and "\<not> is_function wB"
    and "state s A \<noteq> None" and "state s B \<noteq> None"
    and "\<not> isPaused s" and "\<forall>m \<in> set (middlewares s). \<forall>c. m c = [c]"
    and "storage s \<noteq> Some Void" and "sync s \<noteq> Some Void"
    and "atomSubscriptions s A = Some subsA" and "atomSubscriptions s B = Some subsB"
    and "tx_update A vA createTransaction s = (r1, tx1, s1)"
    and "tx_update B vB tx1 s1 = (r2, tx2, s2)"
  shows "r1 = Inr () \<and> r2 = Inr () \<and> s2 = s
    \<and> changes tx2 = [(A, wA), (B, wB)]
    \<and> fst (tx_commit tx2 s2) = Inr ()
    \<and> changes (fst (snd (tx_commit tx2 s2))) = []
    \<and> state (snd (snd (tx_commit tx2 s2))) = (state s)(A \<mapsto> wA, B \<mapsto> wB)
    \<and> (\<exists>evA evB.
          atomId evA = A \<and> prevValue evA = get_property (state s) A \<and> newValue evA = wA
        \<and> atomId evB = B \<and> prevValue evB = get_property (state s) B \<and> newValue evB = wB
        \<and> filter is_atom_notify (new_effects s (snd (snd (tx_commit tx2 s2)))) =
            map (\<lambda>cb. AtomNotify cb evA) subsA @ map (\<lambda>cb. AtomNotify cb evB) subsB)"
proof -
  note run = assms(10,11)
  have fieldA: "has_property (state s) A" and fieldB: "has_property (state s) B"
    using assms(8,9) by (simp_all add: has_property_def)
  have first: "r1 = Inr ()" "s1 = s" "changes tx1 = [(A, wA)]"
    using tx_update_valid [OF assms(2), of createTransaction] assms(16)
    by (simp_all add: createTransaction_def)
  have second: "r2 = Inr ()" "s2 = s" "changes tx2 = [(A, wA), (B, wB)]"
    using tx_update_valid [OF assms(4), of tx1] assms(17) first assms(1)
    by simp_all
  define cA where "cA = local_change A wA False s"
  define sA where "sA = snd (updateAtom A (Direct wA) False s)"
  have quietA: "\<not> adapter_throws (local_change A wA False s) s"
    using assms(12,13) by (simp add: no_throw)
  note resA = updateAtom_valid_result [OF assms(3) run fieldA quietA, folded sA_def cA_def]
  have validB: "validate_atom sA B wB = Inr wB"
    using assms(5) validate_atom_cong [OF resA(4), of B wB] by simp
  have runA: "\<not> isPaused sA" "\<forall>m \<in> set (middlewares sA). \<forall>c. m c = [c]"
    using run resA(5,6) by simp_all
  have fieldB': "has_property (state sA) B"
    using fieldB resA(2) by (simp add: has_property_upd)
  define cB where "cB = local_change B wB False sA"
  define sB where "sB = snd (updateAtom B (Direct wB) False sA)"
  have quietB: "\<not> adapter_throws (local_change B wB False sA) sA"
    using assms(12,13) resA(8,9) by (simp add: no_throw)
  note resB = updateAtom_valid_result [OF validB runA fieldB' quietB, folded sB_def cB_def]
  have "commit_entries [(A, wA), (B, wB)] s = commit_entries [(B, wB)] sA"
    unfolding sA_def by (rule commit_one [OF assms(3) assms(6) fieldA run quietA])
  also have "\<dots> = commit_entries [] sB"
    unfolding sB_def by (rule commit_one [OF validB assms(7) fieldB' runA quietB])
  finally have loop: "commit_entries (changes tx2) s = (Inr (), sB)"
    using second(3) by simp
  note committed = tx_commit_ok [OF loop]
  have st: "state sB = (state s)(A \<mapsto> wA, B \<mapsto> wB)"
    using resA(2) resB(2) by simp
  have eff: "new_effects s sB = proceed_effects cA cA s @ proceed_effects cB cB sA"
    using resA(3) resB(3) by simp
  define evA where "evA = cA\<lparr>prevValue := get_property (state s) A\<rparr>"
  define evB where "evB = cB\<lparr>prevValue := get_property (state sA) B\<rparr>"
  have quiet: "\<not> adapter_throws cA s" "\<not> adapter_throws cB sA"
    using quietA quietB by (simp_all add: cA_def cB_def)
  have calls: "filter is_atom_notify (new_effects s sB) =
      map (\<lambda>cb. AtomNotify cb evA) subsA @ map (\<lambda>cb. AtomNotify cb evB) subsB"
    using resA(7) quiet assms(14,15)
    by (simp add: eff notifications_of_proceed subscribers_of_def)
       (simp add: cA_def cB_def evA_def evB_def)
  have prevB: "get_property (state sA) B = get_property (state s) B"
    using assms(1) resA(2) by (simp add: get_property_other)
  have evs: "atomId evA = A" "prevValue evA = get_property (state s) A" "newValue evA = wA"
    "atomId evB = B" "prevValue evB = get_property (state s) B" "newValue evB = wB"
    using prevB by (simp_all add: evA_def evB_def cA_def cB_def)
  have observed: "\<exists>evA evB.
          atomId evA = A \<and> prevValue evA = get_property (state s) A \<and> newValue evA = wA
        \<and> atomId evB = B \<and> prevValue evB = get_property (state s) B \<and> newValue evB = wB
        \<and> filter is_atom_notify (new_effects s sB) =
            map (\<lambda>cb. AtomNotify cb evA) subsA @ map (\<lambda>cb. AtomNotify cb evB) subsB"
    by (rule exI [of _ evA], rule exI [of _ evB]) (intro conjI evs calls)
  show ?thesis
    using first(1) second committed st observed by simp
qed

text \<open>
  A transaction is given \<open>v1\<close> and then \<open>v2\<close> for the same field, both valid. Only the
  second value is pending. A commit succeeds, sets the field to that value, and the calls
  of atom subscribers are: every subscriber of the field with one and the same event,
  whose new value is that value.
\<close>

lemma transaction_last_write_wins:
  assumes "validate_atom s A v1 = Inr w1"
    and "validate_atom s A v2 = Inr w2" and "validate_atom s A w2 = Inr w2"
    and "\<not> is_function w2"
    and "state s A \<noteq> None"
    and "\<not> isPaused s" and "\<forall>m \<in> set (middlewares s). \<forall>c. m c = [c]"
    and "storage s \<noteq> Some Void" and "sync s \<noteq> Some Void"
    and "atomSubscriptions s A = Some subsA"
    and "tx_update A v1 createTransaction s = (r1, tx1, s1)"
    and "tx_update A v2 tx1 s1 = (r2, tx2, s2)"
  shows "r1 = Inr () \<and> r2 = Inr () \<and> s2 = s
    \<and> changes tx2 = [(A, w2)]
    \<and> fst (tx_commit tx2 s2) = Inr ()
    \<and> changes (fst (snd (tx_commit tx2 s2))) = []
    \<and> state (snd (snd (tx_commit tx2 s2))) = (state s)(A \<mapsto> w2)
    \<and> (\<exists>ev.
          atomId ev = A \<and> prevValue ev = get_property (state s) A \<and> newValue ev = w2
        \<and> filter is_atom_notify (new_effects s (snd (snd (tx_commit tx2 s2)))) =
            map (\<lambda>cb. AtomNotify cb ev) subsA)"
proof -
  note run = assms(6,7)
  have field: "has_property (state s) A"
    using assms(5) by (simp add: has_property_def)
  have first: "r1 = Inr ()" "s1 = s" "changes tx1 = [(A, w1)]"
    using tx_update_valid [OF assms(1), of createTransaction] assms(11)
    by (simp_all add: createTransaction_def)
  have second: "r2 = Inr ()" "s2 = s" "changes tx2 = [(A, w2)]"
    using tx_update_valid [OF assms(2), of tx1] assms(12) first
    by simp_all
  define cA where "cA = local_change A w2 False s"
  define sA where "sA = snd (updateAtom A (Direct w2) False s)"
  have quietA: "\<not> adapter_throws (local_change A w2 False s) s"
    using assms(8,9) by (simp add: no_throw)
  note resA = updateAtom_valid_result [OF assms(3) run field quietA, folded sA_def cA_def]
  have "commit_entries [(A, w2)] s = commit_entries [] sA"
    unfolding sA_def by (rule commit_one [OF assms(3) assms(4) field run quietA])
  then have loop: "commit_entries (changes tx2) s = (Inr (), sA)"
    using second(3) by simp
  note committed = tx_commit_ok [OF loop]
  have eff: "new_effects s sA = proceed_effects cA cA s"
    using resA(3) by simp
  define ev where "ev = cA\<lparr>prevValue := get_property (state s) A\<rparr>"
  have quiet: "\<not> adapter_throws cA s"
    using quietA by (simp add: cA_def)
  have calls: "filter is_atom_notify (new_effects s sA) = map (\<lambda>cb. AtomNotify cb ev) subsA"
    using quiet assms(10)
    by (simp add: eff notifications_of_proceed subscribers_of_def) (simp add: cA_def ev_def)
  have evs: "atomId ev = A" "prevValue ev = get_property (state s) A" "newValue ev = w2"
    by (simp_all add: ev_def cA_def)
  have observed: "\<exists>ev.
          atomId ev = A \<and> prevValue ev = get_property (state s) A \<and> newValue ev = w2
        \<and> filter is_atom_notify (new_effects s sA) = map (\<lambda>cb. AtomNotify cb ev) subsA"
    by (rule exI [of _ ev]) (intro conjI evs calls)
  show ?thesis
    using first(1) second committed resA(2) observed by simp
qed

text \<open>
  A selector is registered under the id \<open>sid\<close> with the dependency set \<open>{A}\<close>; the ids of
  the cache are distinct, as the keys of a \<^verbatim>\<open>Map\<close> are. An applied change of \<open>A\<close> calls
  the selector function once, on the snapshot that holds the new value, and then calls
  every subscriber of the selector, in subscription order, with the result. A change of
  any other atom, applied or not, whatever the middlewares do and whatever the adapters
  return, neither calls the selector function nor notifies its subscribers.
\<close>

lemma selector_recomputed_for_dependency_only:
  assumes "map_of (selectorCache s) sid = Some c" and "deps c = {A}"
    and "distinct (map fst (selectorCache s))"
    and "selectorSubscriptions s sid = Some subs"
  shows "\<lbrakk>atomId change = A; \<not> isPaused s; \<forall>m \<in> set (middlewares s). \<forall>c. m c = [c];
          has_property (state s) A; storage s \<noteq> Some Void;
          sync s \<noteq> Some Void \<or> optimistic change\<rbrakk> \<Longrightarrow>
          filter (is_of_selector sid) (new_effects s (snd (applyChange change s))) =
            SelectorCall sid (run (selector c) ((state s)(A \<mapsto> newValue change))) #
            map (\<lambda>cb. SelectorNotify sid cb (run (selector c) ((state s)(A \<mapsto> newValue change))))
              subs"
    and "atomId change \<noteq> A \<Longrightarrow>
          filter (is_of_selector sid) (new_effects s (snd (applyChange change s))) = []"
proof -
  have mem: "sid \<in> set (affectedSelectors s k) \<longleftrightarrow> k = A" for k
    using affectedSelectors_mem [OF assms(1,3)] assms(2) by simp
  show "filter (is_of_selector sid) (new_effects s (snd (applyChange change s))) =
            SelectorCall sid (run (selector c) ((state s)(A \<mapsto> newValue change))) #
            map (\<lambda>cb. SelectorNotify sid cb (run (selector c) ((state s)(A \<mapsto> newValue change))))
              subs"
    if cond: "atomId change = A" "\<not> isPaused s" "\<forall>m \<in> set (middlewares s). \<forall>c. m c = [c]"
      "has_property (state s) A" "storage s \<noteq> Some Void"
      "sync s \<noteq> Some Void \<or> optimistic change"
  proof -
    have "new_effects s (snd (applyChange change s)) = proceed_effects change change s"
      using cond(2,3) by (rule applyChange_new_effects) (use cond(1,4) in simp)
    moreover have "\<not> adapter_throws change s"
      using cond(5,6) by (rule no_throw)
    ultimately show ?thesis
      using cond(1) assms(1,4) mem
      by (simp add: selector_of_proceed selector_effects_def subscribers_of_def)
  qed
  show "filter (is_of_selector sid) (new_effects s (snd (applyChange change s))) = []"
    if "atomId change \<noteq> A"
    by (rule applyChange_other_selector) (use that mem in simp)
qed

text \<open>
  In the concrete store the selector \<^verbatim>\<open>id-x\<close> doubles \<^verbatim>\<open>count\<close> and has the subscriber
  7. The change of \<^verbatim>\<open>count\<close> to 5 calls it and delivers 10; the change of \<^verbatim>\<open>total\<close>
  does not reach it, nor does it in the store of the README.
\<close>

lemma selector_recomputed_example:
  "filter (is_of_selector ''id-x'')
     (new_effects example_store (snd (applyChange remote_change example_store)))
   = [SelectorCall ''id-x'' 10, SelectorNotify ''id-x'' 7 10]"
  "filter (is_of_selector ''id-x'')
     (new_effects example_store (snd (applyChange total_change example_store))) = []"
  "filter (is_of_selector ''id-x'')
     (new_effects readme_store (snd (applyChange total_change readme_store))) = []"
proof -
  have h: "map_of (selectorCache example_store) ''id-x''
        = Some \<lparr>deps = {''count''}, selector = double_count\<rparr>"
    "distinct (map fst (selectorCache example_store))"
    "selectorSubscriptions example_store ''id-x'' = Some [7]"
    "atomId remote_change = ''count''"
    "has_property (state example_store) ''count''"
    "storage example_store \<noteq> Some Void"
    "sync example_store \<noteq> Some Void \<or> optimistic remote_change"
    "atomId total_change \<noteq> ''count''"
    by (simp_all add: example_store_def remote_change_def total_change_def has_property_def)
  have d: "deps \<lparr>deps = {''count''}, selector = double_count\<rparr> = {''count''}" by simp
  have "filter (is_of_selector ''id-x'')
        (new_effects example_store (snd (applyChange remote_change example_store))) =
      SelectorCall ''id-x''
        (run (selector \<lparr>deps = {''count''}, selector = double_count\<rparr>)
           ((state example_store)(''count'' \<mapsto> newValue remote_change))) #
      map (\<lambda>cb. SelectorNotify ''id-x'' cb
             (run (selector \<lparr>deps = {''count''}, selector = double_count\<rparr>)
                ((state example_store)(''count'' \<mapsto> newValue remote_change))))
        [7]"
    by (rule selector_recomputed_for_dependency_only(1) [OF h(1) d h(2,3,4) example_pass h(5,6,7)])
  also have "\<dots> = [SelectorCall ''id-x'' 10, SelectorNotify ''id-x'' 7 10]"
    by (simp add: double_count_def remote_change_def)
  finally show "filter (is_of_selector ''id-x'')
        (new_effects example_store (snd (applyChange remote_change example_store)))
       = [SelectorCall ''id-x'' 10, SelectorNotify ''id-x'' 7 10]" .
  show "filter (is_of_selector ''id-x'')
        (new_effects example_store (snd (applyChange total_change example_store))) = []"
    by (rule selector_recomputed_for_dependency_only(2) [OF h(1) d h(2,3) h(8)])
  have r: "map_of (selectorCache readme_store) ''id-x''
        = Some \<lparr>deps = {''count''}, selector = double_count\<rparr>"
    "distinct (map fst (selectorCache readme_store))"
    "selectorSubscriptions readme_store ''id-x'' = Some [7]"
    using h(1,2,3) by (simp_all add: readme_fields)
  show "filter (is_of_selector ''id-x'')
        (new_effects readme_store (snd (applyChange total_change readme_store))) = []"
    by (rule selector_recomputed_for_dependency_only(2) [OF r(1) d r(2,3) h(8)])
qed

text \<open>
  The transactions of the concrete store: \<^verbatim>\<open>count\<close> is given 1 and then \<^verbatim>\<open>total\<close> is
  given 2; and \<^verbatim>\<open>count\<close> is given 1 and then 2.
\<close>

lemma transaction_commit_example:
  "fst (tx_commit example_tx2 example_store) = Inr ()"
  "state (snd (snd (tx_commit example_tx2 example_store)))
     = (state example_store)(''count'' \<mapsto> Data 1, ''total'' \<mapsto> Data 2)"
  "\<exists>evA evB.
      atomId evA = ''count'' \<and> newValue evA = Data 1
    \<and> atomId evB = ''total'' \<and> newValue evB = Data 2
    \<and> filter is_atom_notify
          (new_effects example_store (snd (snd (tx_commit example_tx2 example_store)))) =
        [AtomNotify 1 evA, AtomNotify 2 evA, AtomNotify 3 evB]"
proof -
  have h: "''count'' \<noteq> ''total''"
    "validate_atom example_store ''count'' (Data 1) = Inr (Data 1)"
    "validate_atom example_store ''total'' (Data 2) = Inr (Data 2)"
    "\<not> is_function (Data 1 :: int jsval)" "\<not> is_function (Data 2 :: int jsval)"
    "state example_store ''count'' \<noteq> None" "state example_store ''total'' \<noteq> None"
    "storage example_store \<noteq> Some Void" "sync example_store \<noteq> Some Void"
    "atomSubscriptions example_store ''count'' = Some [1, 2]"
    "atomSubscriptions example_store ''total'' = Some [3]"
    by (simp_all add: example_validate) (simp_all add: example_store_def)
  note inst = transaction_commit_in_order
    [OF h(1) h(2) h(2) h(3) h(3) h(4) h(5) h(6) h(7) example_pass h(8) h(9) h(10) h(11)
        example_tx_updates(1,2)]
  show "fst (tx_commit example_tx2 example_store) = Inr ()"
    using inst by simp
  show "state (snd (snd (tx_commit example_tx2 example_store)))
     = (state example_store)(''count'' \<mapsto> Data 1, ''total'' \<mapsto> Data 2)"
    using inst by simp
  from inst obtain evA evB where
    "atomId evA = ''count''" "newValue evA = Data 1"
    "atomId evB = ''total''" "newValue evB = Data 2"
    "filter is_atom_notify
          (new_effects example_store (snd (snd (tx_commit example_tx2 example_store)))) =
        map (\<lambda>cb. AtomNotify cb evA) [1, 2] @ map (\<lambda>cb. AtomNotify cb evB) [3]"
    by auto
  then show "\<exists>evA evB.
      atomId evA = ''count'' \<and> newValue evA = Data 1
    \<and> atomId evB = ''total'' \<and> newValue evB = Data 2
    \<and> filter is_atom_notify
          (new_effects example_store (snd (snd (tx_commit example_tx2 example_store)))) =
        [AtomNotify 1 evA, AtomNotify 2 evA, AtomNotify 3 evB]"
    by (intro exI [of _ evA] exI [of _ evB]) simp
qed

lemma transaction_last_write_example:
  "changes example_tx3 = [(''count'', Data 2)]"
  "fst (tx_commit example_tx3 example_store) = Inr ()"
  "state (snd (snd (tx_commit example_tx3 example_store)))
     = (state example_store)(''count'' \<mapsto> Data 2)"
  "\<exists>ev. atomId ev = ''count'' \<and> newValue ev = Data 2
    \<and> filter is_atom_notify
          (new_effects example_store (snd (snd (tx_commit example_tx3 example_store)))) =
        [AtomNotify 1 ev, AtomNotify 2 ev]"
proof -
  have h: "validate_atom example_store ''count'' (Data 1) = Inr (Data 1)"
    "validate_atom example_store ''count'' (Data 2) = Inr (Data 2)"
    "\<not> is_function (Data 2 :: int jsval)"
    "state example_store ''count'' \<noteq> None"
    "storage example_store \<noteq> Some Void" "sync example_store \<noteq> Some Void"
    "atomSubscriptions example_store ''count'' = Some [1, 2]"
    by (simp_all add: example_validate) (simp_all add: example_store_def)
  note inst = transaction_last_write_wins
    [OF h(1) h(2) h(2) h(3) h(4) example_pass h(5) h(6) h(7) example_tx_updates(1,3)]
  show "changes example_tx3 = [(''count'', Data 2)]"
    using inst by simp
  show "fst (tx_commit example_tx3 example_store) = Inr ()"
    using inst by simp
  show "state (snd (snd (tx_commit example_tx3 example_store)))
     = (state example_store)(''count'' \<mapsto> Data 2)"
    using inst by simp
  from inst obtain ev where
    "atomId ev = ''count''" "newValue ev = Data 2"
    "filter is_atom_notify
          (new_effects example_store (snd (snd (tx_commit example_tx3 example_store)))) =
        map (\<lambda>cb. AtomNotify cb ev) [1, 2]"
    by auto
  then show "\<exists>ev. atomId ev = ''count'' \<and> newValue ev = Data 2
    \<and> filter is_atom_notify
          (new_effects example_store (snd (snd (tx_commit example_tx3 example_store)))) =
        [AtomNotify 1 ev, AtomNotify 2 ev]"
    by (intro exI [of _ ev]) simp
qed

section \<open>The claims\<close>

text \<open>
  C1, as stated, says that a change received from another peer is never passed to
  \<^verbatim>\<open>sendChange\<close>. The concrete store receives a change of the peer \<^verbatim>\<open>peer\<close> that is
  not optimistic: it is applied and sent.
\<close>

theorem remote_rebroadcast_counterexample:
  "source remote_change \<noteq> clientId example_store
   \<and> SyncSend remote_change
       \<in> set (new_effects example_store (snd (syncListener remote_change example_store)))"
proof -
  have "has_property (state example_store) (atomId remote_change)"
    by (simp add: has_property_def example_store_def remote_change_def)
  then have "new_effects example_store (snd (applyChange remote_change example_store)) =
      proceed_effects remote_change remote_change example_store"
    using example_pass by (rule applyChange_new_effects [rotated 2])
  moreover have "SyncSend remote_change \<in>
      set (proceed_effects remote_change remote_change example_store)"
    by (simp add: proceed_effects_def example_store_def remote_change_def)
  ultimately show ?thesis
    by (simp add: syncListener_def example_store_def remote_change_def)
qed

text \<open>
  C1, amended. A change event received from the transport whose source differs from the
  client id goes to \<^verbatim>\<open>applyChange\<close> like a local change. When it is marked optimistic,
  or when no sync adapter is configured, the store does not call \<^verbatim>\<open>sendChange\<close> for it,
  whatever the middlewares and the pause flag. When it is not optimistic, a sync adapter
  is configured, the storage adapter is absent or returns a promise from \<^verbatim>\<open>set\<close>, the
  store is not paused, the middlewares pass changes on unchanged and the atom is found in
  the snapshot, the snapshot gets the new value and \<^verbatim>\<open>sendChange\<close> is called with the
  change once.
\<close>

theorem remote_change_forwarding:
  assumes "source change \<noteq> clientId s"
  shows "syncListener change s = applyChange change s
    \<and> (optimistic change \<or> sync s = None \<longrightarrow>
         filter is_send (new_effects s (snd (syncListener change s))) = [])
    \<and> (\<not> optimistic change \<and> sync s \<noteq> None \<and> storage s \<noteq> Some Void \<and> \<not> isPaused s
         \<and> (\<forall>m \<in> set (middlewares s). \<forall>c. m c = [c])
         \<and> has_property (state s) (atomId change) \<longrightarrow>
         state (snd (syncListener change s)) (atomId change) = Some (newValue change)
         \<and> filter is_send (new_effects s (snd (syncListener change s))) = [SyncSend change])"
proof -
  have eq: "syncListener change s = applyChange change s"
    using assms by (simp add: syncListener_def)
  have quiet: "filter is_send (new_effects s (snd (applyChange change s))) = []"
    if "optimistic change \<or> sync s = None"
    using that by (rule applyChange_no_send)
  have loud: "state (snd (applyChange change s)) (atomId change) = Some (newValue change)
      \<and> filter is_send (new_effects s (snd (applyChange change s))) = [SyncSend change]"
    if "\<not> optimistic change" "sync s \<noteq> None" "storage s \<noteq> Some Void" "\<not> isPaused s"
      "\<forall>m \<in> set (middlewares s). \<forall>c. m c = [c]" "has_property (state s) (atomId change)"
    using that by (simp add: applyChange_applied sends_of_proceed)
  show ?thesis
    using eq quiet loud by simp
qed

text \<open>
  The concrete store and the change of the peer.
\<close>

theorem remote_change_forwarding_witness:
  "source remote_change \<noteq> clientId example_store
   \<and> \<not> optimistic remote_change \<and> sync example_store \<noteq> None
   \<and> storage example_store \<noteq> Some Void \<and> \<not> isPaused example_store
   \<and> list_all (\<lambda>m. m remote_change = [remote_change]) (middlewares example_store)
   \<and> has_property (state example_store) (atomId remote_change)
   \<and> state (snd (syncListener remote_change example_store)) (atomId remote_change)
       = Some (newValue remote_change)
   \<and> filter is_send (new_effects example_store (snd (syncListener remote_change example_store)))
       = [SyncSend remote_change]"
proof -
  have h: "source remote_change \<noteq> clientId example_store" "\<not> optimistic remote_change"
    "sync example_store \<noteq> None" "storage example_store \<noteq> Some Void"
    "has_property (state example_store) (atomId remote_change)"
    "list_all (\<lambda>m. m remote_change = [remote_change]) (middlewares example_store)"
    by (simp_all add: example_store_def remote_change_def has_property_def)
  have "state (snd (syncListener remote_change example_store)) (atomId remote_change)
       = Some (newValue remote_change)
   \<and> filter is_send (new_effects example_store (snd (syncListener remote_change example_store)))
       = [SyncSend remote_change]"
    by (rule remote_change_forwarding [OF h(1), THEN conjunct2, THEN conjunct2, THEN mp])
       (intro conjI h example_pass)
  with h show ?thesis
    using example_pass(1) by (intro conjI) simp_all
qed

text \<open>
  C2. The store of the README, with the \<^verbatim>\<open>localStorage\<close> adapter, gets from the sync
  subscription a change of the peer \<^verbatim>\<open>peer\<close> that sets \<^verbatim>\<open>count\<close> to 5 and is marked
  optimistic. The atom \<^verbatim>\<open>count\<close> has the subscribers 1 and 2. The snapshot gets the new
  value and \<^verbatim>\<open>storage.set\<close> is called; it returns \<^verbatim>\<open>undefined\<close>, reading \<^verbatim>\<open>.catch\<close> off
  it throws a \<^verbatim>\<open>TypeError\<close>, and nothing else happens: the change is not sent, and no
  subscriber is called.
\<close>

theorem optimistic_change_subscribers_not_called:
  "optimistic peer_optimistic_change
   \<and> source peer_optimistic_change \<noteq> clientId readme_store
   \<and> storage readme_store = Some Void
   \<and> atomSubscriptions readme_store (atomId peer_optimistic_change) = Some [1, 2]
   \<and> fst (syncListener peer_optimistic_change readme_store) = Inl TypeError
   \<and> state (snd (syncListener peer_optimistic_change readme_store)) ''count'' = Some (Data 5)
   \<and> new_effects readme_store (snd (syncListener peer_optimistic_change readme_store))
       = [StorageSet ''state:count'' (Data 5)]"
proof -
  have own: "source peer_optimistic_change \<noteq> clientId readme_store"
    by (simp add: peer_optimistic_change_def readme_store_def example_store_def)
  then have eq: "syncListener peer_optimistic_change readme_store =
      applyChange peer_optimistic_change readme_store"
    by (simp add: syncListener_def)
  have key: "atomId peer_optimistic_change = ''count'' \<or> atomId peer_optimistic_change = ''total''"
    by (simp add: peer_optimistic_change_def)
  note res = readme_applied [OF key]
  have subs: "atomSubscriptions readme_store (atomId peer_optimistic_change) = Some [1, 2]"
    by (simp add: readme_fields example_store_def peer_optimistic_change_def)
  show ?thesis
    using own subs res
    by (simp add: eq readme_fields) (simp add: peer_optimistic_change_def)
qed

text \<open>
  C3, as stated, says that no storage write occurs for an applied optimistic change. The
  concrete store has a storage adapter; the optimistic change of \<^verbatim>\<open>count\<close> to 5 is
  written under the key \<^verbatim>\<open>state:count\<close>.
\<close>

theorem optimistic_change_persisted_counterexample:
  "optimistic optimistic_change \<and> storage example_store \<noteq> None
   \<and> StorageSet ''state:count'' (Data 5)
       \<in> set (new_effects example_store (snd (applyChange optimistic_change example_store)))"
proof -
  have "has_property (state example_store) (atomId optimistic_change)"
    by (simp add: has_property_def example_store_def optimistic_change_def)
  then have "new_effects example_store (snd (applyChange optimistic_change example_store)) =
      proceed_effects optimistic_change optimistic_change example_store"
    using example_pass by (rule applyChange_new_effects [rotated 2])
  moreover have "StorageSet ''state:count'' (Data 5) \<in>
      set (proceed_effects optimistic_change optimistic_change example_store)"
    by (simp add: proceed_effects_def example_store_def optimistic_change_def)
  ultimately show ?thesis
    by (simp add: example_store_def optimistic_change_def)
qed

text \<open>
  C3, amended. The store calls \<^verbatim>\<open>storage.set\<close> once for every applied change, optimistic
  or not, with the key \<^verbatim>\<open>state:\<close> followed by the atom id and with the new value. It
  writes nothing when no storage adapter is configured, when the store is paused or when
  the atom is not found; and whatever the middlewares do, every write of an
  \<^verbatim>\<open>applyChange\<close> has that key.
\<close>

theorem storage_written_on_applied_change:
  "(storage s = None \<or> isPaused s \<or> \<not> has_property (state s) (atomId change) \<longrightarrow>
      filter is_storage_set (new_effects s (snd (applyChange change s))) = [])
   \<and> (storage s \<noteq> None \<and> \<not> isPaused s \<and> (\<forall>m \<in> set (middlewares s). \<forall>c. m c = [c])
        \<and> has_property (state s) (atomId change) \<longrightarrow>
      filter is_storage_set (new_effects s (snd (applyChange change s))) =
        [StorageSet (''state:'' @ atomId change) (newValue change)])
   \<and> (\<forall>e \<in> set (new_effects s (snd (applyChange change s))).
        is_storage_set e \<longrightarrow> (\<exists>v. e = StorageSet (''state:'' @ atomId change) v))"
proof -
  note general = adds_only_new_effects [OF applyChange_storage [of s change], THEN conjunct1]
  have none: "filter is_storage_set (new_effects s (snd (applyChange change s))) = []"
    if cond: "storage s = None \<or> isPaused s \<or> \<not> has_property (state s) (atomId change)"
  proof -
    consider "storage s = None" | "isPaused s" | "\<not> has_property (state s) (atomId change)"
      using cond by auto
    then show ?thesis
    proof cases
      case 1
      then have "\<forall>e \<in> set (new_effects s (snd (applyChange change s))). \<not> is_storage_set e"
        using general by blast
      then show ?thesis by (simp add: filter_empty_conv)
    next
      case 2
      then show ?thesis by (simp add: applyChange_def)
    next
      case 3
      then show ?thesis by (simp add: applyChange_unknown)
    qed
  qed
  have one: "filter is_storage_set (new_effects s (snd (applyChange change s))) =
        [StorageSet (''state:'' @ atomId change) (newValue change)]"
    if "storage s \<noteq> None" "\<not> isPaused s" "\<forall>m \<in> set (middlewares s). \<forall>c. m c = [c]"
      "has_property (state s) (atomId change)"
    using that by (simp add: applyChange_new_effects storage_of_proceed)
  have keys: "\<forall>e \<in> set (new_effects s (snd (applyChange change s))).
        is_storage_set e \<longrightarrow> (\<exists>v. e = StorageSet (''state:'' @ atomId change) v)"
    using general by blast
  show ?thesis
    using none one keys by blast
qed

text \<open>The concrete store, with a storage adapter, and the optimistic change.\<close>

theorem storage_written_on_applied_change_witness:
  "storage example_store \<noteq> None \<and> \<not> isPaused example_store
   \<and> list_all (\<lambda>m. m optimistic_change = [optimistic_change]) (middlewares example_store)
   \<and> has_property (state example_store) (atomId optimistic_change)
   \<and> optimistic optimistic_change
   \<and> filter is_storage_set
        (new_effects example_store (snd (applyChange optimistic_change example_store)))
       = [StorageSet (''state:'' @ atomId optimistic_change) (newValue optimistic_change)]"
proof -
  have h: "storage example_store \<noteq> None"
    "has_property (state example_store) (atomId optimistic_change)"
    "list_all (\<lambda>m. m optimistic_change = [optimistic_change]) (middlewares example_store)"
    "optimistic optimistic_change"
    by (simp_all add: example_store_def optimistic_change_def has_property_def)
  have "filter is_storage_set
        (new_effects example_store (snd (applyChange optimistic_change example_store)))
       = [StorageSet (''state:'' @ atomId optimistic_change) (newValue optimistic_change)]"
    by (rule storage_written_on_applied_change
          [of example_store optimistic_change, THEN conjunct2, THEN conjunct1, THEN mp])
       (intro conjI h example_pass)
  with h example_pass(1) show ?thesis
    by (intro conjI) simp_all
qed

text \<open>
  C4. A change event delivered by the sync subscription whose \<^verbatim>\<open>source\<close> equals the
  client id of the store is discarded: the listener returns, the store, hence the
  snapshot, is what it was, and the trace gets no new entry, so no atom or selector
  subscriber is called.
\<close>

theorem loopback_discarded:
  assumes "source change = clientId s"
  shows "syncListener change s = (Inr (), s)
    \<and> state (snd (syncListener change s)) = state s
    \<and> new_effects s (snd (syncListener change s)) = []"
  using assms by (simp add: syncListener_def)

text \<open>The concrete store receives a change that carries its own client id.\<close>

theorem loopback_discarded_witness:
  "source optimistic_change = clientId example_store
   \<and> syncListener optimistic_change example_store = (Inr (), example_store)
   \<and> state (snd (syncListener optimistic_change example_store)) = state example_store
   \<and> new_effects example_store (snd (syncListener optimistic_change example_store)) = []"
  using loopback_discarded [of optimistic_change example_store]
  by (simp add: optimistic_change_def example_store_def)

text \<open>
  C5. On the store of the README, with the \<^verbatim>\<open>localStorage\<close> adapter, a transaction is
  given 1 for \<^verbatim>\<open>count\<close> and then 2 for \<^verbatim>\<open>total\<close>; both updates succeed. The atoms have
  the subscribers 1 and 2, and 3. A rollback leaves the store as it is. The commit
  replaces \<^verbatim>\<open>count\<close> in the snapshot and calls \<^verbatim>\<open>storage.set\<close>; reading \<^verbatim>\<open>.catch\<close> off
  the \<^verbatim>\<open>undefined\<close> it returns throws a \<^verbatim>\<open>TypeError\<close>, which \<^verbatim>\<open>updateAtom\<close> reports
  as an invalid value and rethrows. The commit ends there: \<^verbatim>\<open>total\<close> keeps its old
  value, the changes stay pending, and no subscriber is called.
\<close>

theorem transaction_commit_aborted:
  "tx_update ''count'' (Data 1) createTransaction readme_store
       = (Inr (), example_tx1, readme_store)
   \<and> tx_update ''total'' (Data 2) example_tx1 readme_store
       = (Inr (), example_tx2, readme_store)
   \<and> atomSubscriptions readme_store ''count'' = Some [1, 2]
   \<and> atomSubscriptions readme_store ''total'' = Some [3]
   \<and> snd (tx_rollback example_tx2 readme_store) = readme_store
   \<and> fst (tx_commit example_tx2 readme_store) = Inl TypeError
   \<and> fst (snd (tx_commit example_tx2 readme_store)) = example_tx2
   \<and> state (snd (snd (tx_commit example_tx2 readme_store))) ''count'' = Some (Data 1)
   \<and> state (snd (snd (tx_commit example_tx2 readme_store))) ''total'' = Some (Data 0)
   \<and> new_effects readme_store (snd (snd (tx_commit example_tx2 readme_store)))
       = [StorageSet ''state:count'' (Data 1),
          ConsoleError ''Invalid value for atom count:'' TypeError]"
proof -
  have field: "has_property (state readme_store) ''count''"
    by (simp add: has_property_def readme_fields example_store_def)
  have throws: "adapter_throws (local_change ''count'' (Data 1) False readme_store) readme_store"
    by (simp add: adapter_throws_def readme_fields)
  note res = updateAtom_throws [OF readme_validate(1) readme_pass field throws, simplified]
  have "commit_entries ((''count'', Data 1) # [(''total'', Data 2)]) readme_store =
      (Inl TypeError, snd (updateAtom ''count'' (Direct (Data 1)) False readme_store))"
    by (rule commit_entries_throws) (simp_all add: res(1))
  then have "commit_entries (changes example_tx2) readme_store =
      (Inl TypeError, snd (updateAtom ''count'' (Direct (Data 1)) False readme_store))"
    by (simp add: example_tx2_def)
  note aborted = tx_commit_throws [OF this]
  have subs: "atomSubscriptions readme_store ''count'' = Some [1, 2]"
    "atomSubscriptions readme_store ''total'' = Some [3]"
    by (simp_all add: readme_fields example_store_def)
  have eff: "new_effects readme_store (snd (updateAtom ''count'' (Direct (Data 1)) False readme_store))
      = [StorageSet ''state:count'' (Data 1),
         ConsoleError ''Invalid value for atom count:'' TypeError]"
    using res(3) by (simp add: proceed_effects_def readme_fields)
  show ?thesis
    using readme_tx_updates(1,2) subs aborted res(2) eff
    by (simp add: tx_rollback_def readme_fields example_store_def [THEN arg_cong, of state])
qed

text \<open>
  C6. On the store of the README a transaction is given 1 and then 2 for \<^verbatim>\<open>count\<close>; only 2
  is pending. The commit replaces \<^verbatim>\<open>count\<close> in the snapshot by 2 and calls
  \<^verbatim>\<open>storage.set\<close>; the \<^verbatim>\<open>TypeError\<close> of \<^verbatim>\<open>.catch\<close> ends it, and the subscribers 1 and 2 of
  \<^verbatim>\<open>count\<close> are not called.
\<close>

theorem transaction_overwrite_commit_aborted:
  "tx_update ''count'' (Data 1) createTransaction readme_store
       = (Inr (), example_tx1, readme_store)
   \<and> tx_update ''count'' (Data 2) example_tx1 readme_store
       = (Inr (), example_tx3, readme_store)
   \<and> changes example_tx3 = [(''count'', Data 2)]
   \<and> atomSubscriptions readme_store ''count'' = Some [1, 2]
   \<and> fst (tx_commit example_tx3 readme_store) = Inl TypeError
   \<and> state (snd (snd (tx_commit example_tx3 readme_store))) ''count'' = Some (Data 2)
   \<and> new_effects readme_store (snd (snd (tx_commit example_tx3 readme_store)))
       = [StorageSet ''state:count'' (Data 2),
          ConsoleError ''Invalid value for atom count:'' TypeError]"
proof -
  have field: "has_property (state readme_store) ''count''"
    by (simp add: has_property_def readme_fields example_store_def)
  have throws: "adapter_throws (local_change ''count'' (Data 2) False readme_store) readme_store"
    by (simp add: adapter_throws_def readme_fields)
  note res = updateAtom_throws [OF readme_validate(1) readme_pass field throws, simplified]
  have "commit_entries ((''count'', Data 2) # []) readme_store =
      (Inl TypeError, snd (updateAtom ''count'' (Direct (Data 2)) False readme_store))"
    by (rule commit_entries_throws) (simp_all add: res(1))
  then have "commit_entries (changes example_tx3) readme_store =
      (Inl TypeError, snd (updateAtom ''count'' (Direct (Data 2)) False readme_store))"
    by (simp add: example_tx3_def)
  note aborted = tx_commit_throws [OF this]
  have subs: "atomSubscriptions readme_store ''count'' = Some [1, 2]"
    by (simp add: readme_fields example_store_def)
  have eff: "new_effects readme_store (snd (updateAtom ''count'' (Direct (Data 2)) False readme_store))
      = [StorageSet ''state:count'' (Data 2),
         ConsoleError ''Invalid value for atom count:'' TypeError]"
    using res(3) by (simp add: proceed_effects_def readme_fields)
  show ?thesis
    using readme_tx_updates(1,3) subs aborted res(2) eff
    by (simp add: example_tx3_def)
qed

text \<open>
  C7. When the validator of a field rejects the input, \<^verbatim>\<open>updateAtom\<close> rethrows the
  validator's error to its caller, for a value and for an updater function that returns
  the rejected value alike. The store it leaves differs from the one before only by the
  console message: the snapshot and the timeline are unchanged, and the trace has no
  subscriber call, storage write or send.
\<close>

theorem invalid_update_rejected:
  assumes "atoms s F = Some a" and "validate a x = Inl err"
  shows "updateAtom F (Direct x) opt s =
           (Inl err, emit (ConsoleError (''Invalid value for atom '' @ F @ '':'') err) s)
    \<and> (f (get_property (state s) F) = x \<longrightarrow>
          updateAtom F (Updater f) opt s = updateAtom F (Direct x) opt s)
    \<and> state (snd (updateAtom F (Direct x) opt s)) = state s
    \<and> timeline (snd (updateAtom F (Direct x) opt s)) = timeline s
    \<and> new_effects s (snd (updateAtom F (Direct x) opt s)) =
          [ConsoleError (''Invalid value for atom '' @ F @ '':'') err]"
  using assms by (simp add: updateAtom_def validate_atom_Some emit_def)

text \<open>
  The concrete store rejects \<open>-1\<close> for \<^verbatim>\<open>count\<close>, given as a value or computed from the
  current value \<open>0\<close>.
\<close>

theorem invalid_update_rejected_witness:
  "atoms example_store ''count'' =
     Some \<lparr>id_atom = ''count'', default_atom = Data 0, validate = nonneg\<rparr>
   \<and> nonneg (Data (- 1)) = Inl (ZodError ''Number must be greater than or equal to 0'')
   \<and> updateAtom ''count'' (Direct (Data (- 1))) False example_store
        = (Inl (ZodError ''Number must be greater than or equal to 0''),
           emit (ConsoleError (''Invalid value for atom '' @ ''count'' @ '':'')
                  (ZodError ''Number must be greater than or equal to 0'')) example_store)
   \<and> updateAtom ''count'' (Updater (\<lambda>v. case v of Data n \<Rightarrow> Data (n - 1) | _ \<Rightarrow> v)) False example_store
        = updateAtom ''count'' (Direct (Data (- 1))) False example_store
   \<and> state (snd (updateAtom ''count'' (Direct (Data (- 1))) False example_store))
        = state example_store
   \<and> new_effects example_store (snd (updateAtom ''count'' (Direct (Data (- 1))) False example_store))
        = [ConsoleError (''Invalid value for atom '' @ ''count'' @ '':'')
             (ZodError ''Number must be greater than or equal to 0'')]"
proof -
  have h: "atoms example_store ''count'' =
      Some \<lparr>id_atom = ''count'', default_atom = Data 0, validate = nonneg\<rparr>"
    "validate \<lparr>id_atom = ''count'', default_atom = Data 0, validate = nonneg\<rparr> (Data (- 1))
      = Inl (ZodError ''Number must be greater than or equal to 0'')"
    by (simp_all add: example_store_def nonneg_def)
  have v: "nonneg (Data (- 1)) = Inl (ZodError ''Number must be greater than or equal to 0'')"
    by (simp add: nonneg_def)
  have g: "(case get_property (state example_store) ''count'' of
        Data n \<Rightarrow> Data (n - 1) | _ \<Rightarrow> get_property (state example_store) ''count'') = Data (- 1)"
    by (simp add: example_store_def get_property_def)
  note inst = invalid_update_rejected [OF h,
      where f = "\<lambda>v. case v of Data n \<Rightarrow> Data (n - 1) | _ \<Rightarrow> v" and opt = False]
  show ?thesis
    using h(1) v inst g by (intro conjI) blast+
qed

text \<open>
  C8, as stated, says that a change for an unknown atom is dropped and logged. The concrete
  store has change logging on and no atom \<^verbatim>\<open>ghost\<close>; applying a change for it writes
  nothing to the console.
\<close>

theorem unknown_field_logged_counterexample:
  "atoms example_store (atomId ghost_change) = None
   \<and> debug_logChanges example_store
   \<and> filter is_console
       (new_effects example_store (snd (applyChange ghost_change example_store))) = []"
proof -
  have "\<not> has_property (state example_store) (atomId ghost_change)"
    by (simp add: has_property_def example_store_def ghost_change_def object_prototype_keys_def)
  then have "applyChange ghost_change example_store = (Inr (), example_store)"
    by (rule applyChange_unknown)
  then show ?thesis
    by (simp add: example_store_def ghost_change_def debug_logChanges_def)
qed

text \<open>
  C8, amended. For a change event whose \<^verbatim>\<open>atomId\<close> is no key of the snapshot and no
  property name of \<^verbatim>\<open>Object.prototype\<close>, \<^verbatim>\<open>applyChange\<close> returns and leaves the store
  exactly as it was, whatever the middlewares do: the snapshot and the timeline are
  unchanged and the trace gets no entry, so there is no subscriber call, no storage write,
  no send and no console message.
\<close>

theorem unknown_field_dropped:
  assumes "state s (atomId change) = None"
    and "atomId change \<notin> set object_prototype_keys"
  shows "applyChange change s = (Inr (), s)
    \<and> state (snd (applyChange change s)) = state s
    \<and> timeline (snd (applyChange change s)) = timeline s
    \<and> new_effects s (snd (applyChange change s)) = []"
proof -
  have "\<not> has_property (state s) (atomId change)"
    using assms by (simp add: has_property_def)
  then have "applyChange change s = (Inr (), s)"
    by (rule applyChange_unknown)
  then show ?thesis by simp
qed

text \<open>The concrete store and the change for \<^verbatim>\<open>ghost\<close>.\<close>

theorem unknown_field_dropped_witness:
  "state example_store (atomId ghost_change) = None
   \<and> atomId ghost_change \<notin> set object_prototype_keys
   \<and> applyChange ghost_change example_store = (Inr (), example_store)
   \<and> state (snd (applyChange ghost_change example_store)) = state example_store
   \<and> timeline (snd (applyChange ghost_change example_store)) = timeline example_store
   \<and> new_effects example_store (snd (applyChange ghost_change example_store)) = []"
  using unknown_field_dropped [of example_store ghost_change]
  by (simp add: example_store_def ghost_change_def object_prototype_keys_def)

text \<open>
  C9. In the store of the README the selector \<^verbatim>\<open>id-x\<close> depends on \<^verbatim>\<open>count\<close> alone and
  has the subscriber 7. The store gets from the sync subscription the change of the peer
  \<^verbatim>\<open>peer\<close> that sets \<^verbatim>\<open>count\<close> to 5. The snapshot gets the new value and \<^verbatim>\<open>storage.set\<close>
  is called; the \<^verbatim>\<open>TypeError\<close> of \<^verbatim>\<open>.catch\<close> ends \<^verbatim>\<open>applyChange\<close> before
  \<^verbatim>\<open>updateSelectors\<close>, so the selector function is not called and its subscriber gets
  nothing.
\<close>

theorem selector_not_recomputed:
  "map_of (selectorCache readme_store) ''id-x''
       = Some \<lparr>deps = {''count''}, selector = double_count\<rparr>
   \<and> selectorSubscriptions readme_store ''id-x'' = Some [7]
   \<and> atomId remote_change = ''count''
   \<and> source remote_change \<noteq> clientId readme_store
   \<and> fst (syncListener remote_change readme_store) = Inl TypeError
   \<and> state (snd (syncListener remote_change readme_store)) ''count'' = Some (Data 5)
   \<and> new_effects readme_store (snd (syncListener remote_change readme_store))
       = [StorageSet ''state:count'' (Data 5)]"
proof -
  have own: "source remote_change \<noteq> clientId readme_store"
    by (simp add: remote_change_def readme_store_def example_store_def)
  then have eq: "syncListener remote_change readme_store = applyChange remote_change readme_store"
    by (simp add: syncListener_def)
  have key: "atomId remote_change = ''count'' \<or> atomId remote_change = ''total''"
    by (simp add: remote_change_def)
  note res = readme_applied [OF key]
  have sel: "map_of (selectorCache readme_store) ''id-x''
       = Some \<lparr>deps = {''count''}, selector = double_count\<rparr>"
    "selectorSubscriptions readme_store ''id-x'' = Some [7]"
    by (simp_all add: readme_fields example_store_def)
  show ?thesis
    using own sel res
    by (simp add: eq) (simp add: remote_change_def)
qed

text \<open>
  C10. When the validator of a field rejects the value, \<^verbatim>\<open>update\<close> of a transaction
  throws the validator's error at once. The store is untouched and the pending changes
  are those from before the call, so a commit, now or on a later store, does to the store
  what it would have done without the call; for a transaction with nothing pending it
  does nothing.
\<close>

theorem tx_update_invalid_throws:
  assumes "atoms s A = Some a" and "validate a v = Inl err"
  shows "fst (tx_update A v tx s) = Inl err
    \<and> snd (snd (tx_update A v tx s)) = s
    \<and> changes (fst (snd (tx_update A v tx s))) = changes tx
    \<and> fst (tx_commit (fst (snd (tx_update A v tx s))) s') = fst (tx_commit tx s')
    \<and> snd (snd (tx_commit (fst (snd (tx_update A v tx s))) s')) = snd (snd (tx_commit tx s'))
    \<and> (changes tx = [] \<longrightarrow> snd (snd (tx_commit (fst (snd (tx_update A v tx s))) s')) = s')"
proof -
  have same: "changes (fst (snd (tx_update A v tx s))) = changes tx"
    using assms by (simp add: tx_update_def validate_atom_Some Let_def)
  have res: "fst (tx_update A v tx s) = Inl err" "snd (snd (tx_update A v tx s)) = s"
    using assms by (simp_all add: tx_update_def validate_atom_Some Let_def)
  have commit: "fst (tx_commit t1 s') = fst (tx_commit t2 s')
      \<and> snd (snd (tx_commit t1 s')) = snd (snd (tx_commit t2 s'))"
    if "changes t1 = changes t2" for t1 t2 :: "'a transaction"
    using that by (simp add: tx_commit_def split: prod.splits sum.splits)
  have empty: "snd (snd (tx_commit t s')) = s'" if "changes t = []" for t :: "'a transaction"
    using that by (simp add: tx_commit_def)
  show ?thesis
    using same res commit [OF same] empty [of "fst (snd (tx_update A v tx s))"] by simp
qed

text \<open>A fresh transaction on the concrete store is given \<open>-1\<close> for \<^verbatim>\<open>count\<close>.\<close>

theorem tx_update_invalid_throws_witness:
  "atoms example_store ''count'' =
     Some \<lparr>id_atom = ''count'', default_atom = Data 0, validate = nonneg\<rparr>
   \<and> nonneg (Data (- 1)) = Inl (ZodError ''Number must be greater than or equal to 0'')
   \<and> changes (createTransaction :: int transaction) = []
   \<and> fst (tx_update ''count'' (Data (- 1)) createTransaction example_store)
        = Inl (ZodError ''Number must be greater than or equal to 0'')
   \<and> snd (snd (tx_update ''count'' (Data (- 1)) createTransaction example_store)) = example_store
   \<and> changes (fst (snd (tx_update ''count'' (Data (- 1)) createTransaction example_store)))
        = changes (createTransaction :: int transaction)
   \<and> snd (snd (tx_commit
        (fst (snd (tx_update ''count'' (Data (- 1)) createTransaction example_store)))
        example_store)) = example_store"
proof -
  have h: "atoms example_store ''count'' =
      Some \<lparr>id_atom = ''count'', default_atom = Data 0, validate = nonneg\<rparr>"
    "validate \<lparr>id_atom = ''count'', default_atom = Data 0, validate = nonneg\<rparr> (Data (- 1))
      = Inl (ZodError ''Number must be greater than or equal to 0'')"
    by (simp_all add: example_store_def nonneg_def)
  have v: "nonneg (Data (- 1)) = Inl (ZodError ''Number must be greater than or equal to 0'')"
    by (simp add: nonneg_def)
  have e: "changes (createTransaction :: int transaction) = []"
    by (simp add: createTransaction_def)
  note inst = tx_update_invalid_throws [OF h, where tx = createTransaction and s' = example_store]
  show ?thesis
    using h(1) v inst e by (intro conjI) blast+
qed

end
